theory Spec2Isabelle
  imports Main
begin

section \<open>Strings and exceptions\<close>

text \<open>
  A Python \<open>str\<close> is a sequence of Unicode code points, so a string is a list of
  natural numbers and \<open>length\<close> counts what \<open>len\<close> counts.  \<open>ascii\<close> writes an
  ASCII literal.
\<close>

type_synonym pystr = "nat list"

definition ascii :: "string \<Rightarrow> pystr" where
  "ascii s = map of_char s"

definition in_ranges :: "(nat \<times> nat) list \<Rightarrow> nat \<Rightarrow> bool" where
  "in_ranges rs c = list_ex (\<lambda>(lo, hi). lo \<le> c \<and> c \<le> hi) rs"

text \<open>
  The character classes of the interpreter (Unicode 14.0.0, the database of CPython 3.11):
  \<open>str.isspace\<close>, \<open>str.isdecimal\<close> (general category Nd, which is also what \<open>\d\<close>
  matches in a \<open>str\<close> pattern and what \<open>int\<close> converts) and \<open>str.isdigit\<close>
  (Nd together with the other characters of numeric type Digit, such as the
  superscript digits).
\<close>

definition space_ranges :: "(nat \<times> nat) list" where
  "space_ranges =
    [(9, 13), (28, 32), (133, 133), (160, 160), (5760, 5760), (8192, 8202),
     (8232, 8233), (8239, 8239), (8287, 8287), (12288, 12288)]"

definition decimal_ranges :: "(nat \<times> nat) list" where
  "decimal_ranges =
    [(48, 57), (1632, 1641), (1776, 1785), (1984, 1993), (2406, 2415), (2534, 2543),
     (2662, 2671), (2790, 2799), (2918, 2927), (3046, 3055), (3174, 3183), (3302, 3311),
     (3430, 3439), (3558, 3567), (3664, 3673), (3792, 3801), (3872, 3881), (4160, 4169),
     (4240, 4249), (6112, 6121), (6160, 6169), (6470, 6479), (6608, 6617), (6784, 6793),
     (6800, 6809), (6992, 7001), (7088, 7097), (7232, 7241), (7248, 7257), (42528, 42537),
     (43216, 43225), (43264, 43273), (43472, 43481), (43504, 43513), (43600, 43609),
     (44016, 44025), (65296, 65305), (66720, 66729), (68912, 68921), (69734, 69743),
     (69872, 69881), (69942, 69951), (70096, 70105), (70384, 70393), (70736, 70745),
     (70864, 70873), (71248, 71257), (71360, 71369), (71472, 71481), (71904, 71913),
     (72016, 72025), (72784, 72793), (73040, 73049), (73120, 73129), (92768, 92777),
     (92864, 92873), (93008, 93017), (120782, 120831), (123200, 123209), (123632, 123641),
     (125264, 125273), (130032, 130041)]"

definition digit_ranges :: "(nat \<times> nat) list" where
  "digit_ranges =
    [(48, 57), (178, 179), (185, 185), (1632, 1641), (1776, 1785), (1984, 1993),
     (2406, 2415), (2534, 2543), (2662, 2671), (2790, 2799), (2918, 2927), (3046, 3055),
     (3174, 3183), (3302, 3311), (3430, 3439), (3558, 3567), (3664, 3673), (3792, 3801),
     (3872, 3881), (4160, 4169), (4240, 4249), (4969, 4977), (6112, 6121), (6160, 6169),
     (6470, 6479), (6608, 6618), (6784, 6793), (6800, 6809), (6992, 7001), (7088, 7097),
     (7232, 7241), (7248, 7257), (8304, 8304), (8308, 8313), (8320, 8329), (9312, 9320),
     (9332, 9340), (9352, 9360), (9450, 9450), (9461, 9469), (9471, 9471), (10102, 10110),
     (10112, 10120), (10122, 10130), (42528, 42537), (43216, 43225), (43264, 43273),
     (43472, 43481), (43504, 43513), (43600, 43609), (44016, 44025), (65296, 65305),
     (66720, 66729), (68160, 68163), (68912, 68921), (69216, 69224), (69714, 69722),
     (69734, 69743), (69872, 69881), (69942, 69951), (70096, 70105), (70384, 70393),
     (70736, 70745), (70864, 70873), (71248, 71257), (71360, 71369), (71472, 71481),
     (71904, 71913), (72016, 72025), (72784, 72793), (73040, 73049), (73120, 73129),
     (92768, 92777), (92864, 92873), (93008, 93017), (120782, 120831), (123200, 123209),
     (123632, 123641), (125264, 125273), (127232, 127242), (130032, 130041)]"

definition isspace_ch :: "nat \<Rightarrow> bool" where
  "isspace_ch c = in_ranges space_ranges c"

definition isdecimal_ch :: "nat \<Rightarrow> bool" where
  "isdecimal_ch c = in_ranges decimal_ranges c"

definition isdigit_ch :: "nat \<Rightarrow> bool" where
  "isdigit_ch c = in_ranges digit_ranges c"

definition ascii_digit :: "nat \<Rightarrow> bool" where
  "ascii_digit c = (48 \<le> c \<and> c \<le> 57)"

text \<open>\<open>s.isdigit()\<close>: every character is a digit and there is at least one.\<close>

definition isdigit :: "pystr \<Rightarrow> bool" where
  "isdigit s = (s \<noteq> [] \<and> list_all isdigit_ch s)"

text \<open>\<open>s.strip()\<close>: leading and trailing whitespace removed.\<close>

definition strip :: "pystr \<Rightarrow> pystr" where
  "strip s = rev (dropWhile isspace_ch (rev (dropWhile isspace_ch s)))"

text \<open>
  The decimal value of a character of category Nd: every block of decimal digits starts
  at its zero and runs in order.
\<close>

definition digit_value :: "nat \<Rightarrow> int" where
  "digit_value c =
     (case List.find (\<lambda>(lo, hi). lo \<le> c \<and> c \<le> hi) decimal_ranges of
        Some (lo, hi) \<Rightarrow> int ((c - lo) mod 10)
      | None \<Rightarrow> 0)"

text \<open>
  \<open>int(s)\<close> on the text of a numeric group of the date pattern: surrounding
  whitespace is dropped and the decimal digits are read in base ten.
\<close>

definition py_int :: "pystr \<Rightarrow> int" where
  "py_int s = foldl (\<lambda>acc c. 10 * acc + digit_value c) 0 (strip s)"

text \<open>
  An exception is its class and the text it was raised with.  The texts of the program
  are Ukrainian, so each one is named here:
  \<^item> \<open>EmptyName\<close>: the name of a contact may not be empty (\<open>Name\<close>);
  \<^item> \<open>PhoneFormat\<close>: a phone number has to consist of 10 digits (\<open>Phone\<close>);
  \<^item> \<open>DateFormat\<close>: "Invalid date format. Use DD.MM.YYYY" (\<open>Birthday\<close>);
  \<^item> \<open>PhoneNotFound\<close>: phone number not found (\<open>remove_phone\<close>);
  \<^item> \<open>EditPhoneNotFound\<close>: phone number to edit not found (\<open>edit_phone\<close>);
  \<^item> \<open>ContactNotFound\<close>: contact not found (\<open>delete\<close>);
  \<^item> \<open>NeedNamePhone\<close>: a name and a phone have to be given (\<open>add_contact\<close>);
  \<^item> \<open>YearRange\<close>, \<open>MonthRange\<close>, \<open>DayRange\<close>: the date constructor's
    "year ... is out of range", "month must be in 1..12" and
    "day is out of range for month";
  \<^item> \<open>DateOverflow\<close>: "date value out of range" (date plus timedelta);
  \<^item> \<open>NoMatch\<close>, \<open>Unconverted\<close>: \<open>strptime\<close>'s "time data ... does not match
    format ..." and "unconverted data remains: ...".
\<close>

datatype msg =
    EmptyName | PhoneFormat | DateFormat | PhoneNotFound | EditPhoneNotFound
  | ContactNotFound | NeedNamePhone | YearRange | MonthRange | DayRange
  | DateOverflow | NoMatch | Unconverted

datatype error = ValueError msg | KeyError msg | IndexError msg | OverflowError msg

section \<open>The date type of the standard library\<close>

text \<open>
  \<open>datetime.date\<close>, as its reference implementation computes it: the proleptic
  Gregorian calendar, years 1 to 9999, day 1 being 1 January of year 1.  The two tables
  keep their placeholder at index 0.
\<close>

definition MINYEAR :: int where "MINYEAR = 1"
definition MAXYEAR :: int where "MAXYEAR = 9999"
definition MAXORDINAL :: int where "MAXORDINAL = 3652059"

definition DAYS_IN_MONTH :: "int list" where
  "DAYS_IN_MONTH = [-1, 31, 28, 31, 30, 31, 30, 31, 31, 30, 31, 30, 31]"

definition DAYS_BEFORE_MONTH :: "int list" where
  "DAYS_BEFORE_MONTH = [-1, 0, 31, 59, 90, 120, 151, 181, 212, 243, 273, 304, 334]"

definition is_leap :: "int \<Rightarrow> bool" where
  "is_leap y = (y mod 4 = 0 \<and> (y mod 100 \<noteq> 0 \<or> y mod 400 = 0))"

definition days_before_year :: "int \<Rightarrow> int" where
  "days_before_year y = (let z = y - 1 in z * 365 + z div 4 - z div 100 + z div 400)"

definition days_in_month :: "int \<Rightarrow> int \<Rightarrow> int" where
  "days_in_month y m = (if m = 2 \<and> is_leap y then 29 else DAYS_IN_MONTH ! nat m)"

definition days_before_month :: "int \<Rightarrow> int \<Rightarrow> int" where
  "days_before_month y m =
     DAYS_BEFORE_MONTH ! nat m + (if m > 2 \<and> is_leap y then 1 else 0)"

definition ymd2ord :: "int \<Rightarrow> int \<Rightarrow> int \<Rightarrow> int" where
  "ymd2ord y m d = days_before_year y + days_before_month y m + d"

definition DI400Y :: int where "DI400Y = 146097"
definition DI100Y :: int where "DI100Y = 36524"
definition DI4Y :: int where "DI4Y = 1461"

definition ord2ymd :: "int \<Rightarrow> int \<times> int \<times> int" where
  "ord2ymd n0 =
     (let n = n0 - 1;
          n400 = n div DI400Y; n = n mod DI400Y;
          y = n400 * 400 + 1;
          n100 = n div DI100Y; n = n mod DI100Y;
          n4 = n div DI4Y; n = n mod DI4Y;
          n1 = n div 365; n = n mod 365;
          y = y + (n100 * 100 + n4 * 4 + n1)
      in if n1 = 4 \<or> n100 = 4 then (y - 1, 12, 31)
         else
           let leapyear = (n1 = 3 \<and> (n4 \<noteq> 24 \<or> n100 = 3));
               m = (n + 50) div 32;
               preceding = DAYS_BEFORE_MONTH ! nat m + (if m > 2 \<and> leapyear then 1 else 0)
           in if preceding > n
              then let m' = m - 1;
                       preceding' = preceding -
                         (DAYS_IN_MONTH ! nat m' + (if m' = 2 \<and> leapyear then 1 else 0))
                   in (y, m', n - preceding' + 1)
              else (y, m, n - preceding + 1))"

record date =
  year :: int
  month :: int
  day :: int

text \<open>The constructor's checks (\<open>_check_date_fields\<close>), in their order.\<close>

definition date_new :: "int \<Rightarrow> int \<Rightarrow> int \<Rightarrow> error + date" where
  "date_new y m d =
     (if \<not> (MINYEAR \<le> y \<and> y \<le> MAXYEAR) then Inl (ValueError YearRange)
      else if \<not> (1 \<le> m \<and> m \<le> 12) then Inl (ValueError MonthRange)
      else if \<not> (1 \<le> d \<and> d \<le> days_in_month y m) then Inl (ValueError DayRange)
      else Inr \<lparr>year = y, month = m, day = d\<rparr>)"

text \<open>What every date object satisfies, since only the constructor makes one.\<close>

definition valid_date :: "date \<Rightarrow> bool" where
  "valid_date dt =
     (MINYEAR \<le> year dt \<and> year dt \<le> MAXYEAR \<and> 1 \<le> month dt \<and> month dt \<le> 12 \<and>
      1 \<le> day dt \<and> day dt \<le> days_in_month (year dt) (month dt))"

definition toordinal :: "date \<Rightarrow> int" where
  "toordinal dt = ymd2ord (year dt) (month dt) (day dt)"

definition fromordinal :: "int \<Rightarrow> date" where
  "fromordinal n = (case ord2ymd n of (y, m, d) \<Rightarrow> \<lparr>year = y, month = m, day = d\<rparr>)"

text \<open>\<open>dt.replace(year=y)\<close> builds a new date through the constructor.\<close>

definition replace_year :: "date \<Rightarrow> int \<Rightarrow> error + date" where
  "replace_year dt y = date_new y (month dt) (day dt)"

text \<open>\<open>a < b\<close> compares the triples (year, month, day).\<close>

definition date_less :: "date \<Rightarrow> date \<Rightarrow> bool" where
  "date_less a b =
     (year a < year b \<or> (year a = year b \<and>
       (month a < month b \<or> (month a = month b \<and> day a < day b))))"

text \<open>\<open>(a - b).days\<close>.\<close>

definition date_sub :: "date \<Rightarrow> date \<Rightarrow> int" where
  "date_sub a b = toordinal a - toordinal b"

text \<open>\<open>dt + timedelta(days=k)\<close>.\<close>

definition date_add :: "date \<Rightarrow> int \<Rightarrow> error + date" where
  "date_add dt k =
     (let n = toordinal dt + k
      in if 0 < n \<and> n \<le> MAXORDINAL then Inr (fromordinal n)
         else Inl (OverflowError DateOverflow))"

definition weekday :: "date \<Rightarrow> int" where
  "weekday dt = (toordinal dt + 6) mod 7"

text \<open>
  \<open>dt.strftime("%d.%m.%Y")\<close>: day and month as two digits; the year as the C library
  prints it, which is the plain decimal number (four digits from year 1000 on).
\<close>

fun decimal :: "nat \<Rightarrow> pystr" where
  "decimal n = (if n < 10 then [48 + n] else decimal (n div 10) @ [48 + n mod 10])"

declare decimal.simps [simp del]

definition pad2 :: "int \<Rightarrow> pystr" where
  "pad2 n = [48 + nat (n div 10), 48 + nat (n mod 10)]"

definition strftime_dmY :: "date \<Rightarrow> pystr" where
  "strftime_dmY dt = pad2 (day dt) @ [46] @ pad2 (month dt) @ [46] @ decimal (nat (year dt))"

text \<open>
  \<open>datetime.strptime(v, "%d.%m.%Y")\<close>.  The format compiles to the regular expression
  \<^verbatim>\<open>(?P<d>3[0-1]|[1-2]\d|0[1-9]|[1-9]| [1-9])\.(?P<m>1[0-2]|0[1-9]|[1-9])\.(?P<Y>\d\d\d\d)\<close>,
  matched at the start of the text; a matcher returns every way to match a prefix, in
  the order in which backtracking tries them, as pairs of the matched text and the rest.
  Text left over after the match is an error, and so is a date the constructor refuses.
\<close>

definition take1 :: "(nat \<Rightarrow> bool) \<Rightarrow> pystr \<Rightarrow> (pystr \<times> pystr) list" where
  "take1 p s = (case s of a # r \<Rightarrow> if p a then [([a], r)] else [] | _ \<Rightarrow> [])"

definition take2 :: "(nat \<Rightarrow> bool) \<Rightarrow> (nat \<Rightarrow> bool) \<Rightarrow> pystr \<Rightarrow> (pystr \<times> pystr) list" where
  "take2 p q s =
     (case s of a # b # r \<Rightarrow> if p a \<and> q b then [([a, b], r)] else [] | _ \<Rightarrow> [])"

definition between :: "nat \<Rightarrow> nat \<Rightarrow> nat \<Rightarrow> bool" where
  "between lo hi c = (lo \<le> c \<and> c \<le> hi)"

definition re_d :: "pystr \<Rightarrow> (pystr \<times> pystr) list" where
  "re_d s =
     take2 (between 51 51) (between 48 49) s @
     take2 (between 49 50) isdecimal_ch s @
     take2 (between 48 48) (between 49 57) s @
     take1 (between 49 57) s @
     take2 (between 32 32) (between 49 57) s"

definition re_m :: "pystr \<Rightarrow> (pystr \<times> pystr) list" where
  "re_m s =
     take2 (between 49 49) (between 48 50) s @
     take2 (between 48 48) (between 49 57) s @
     take1 (between 49 57) s"

definition re_Y :: "pystr \<Rightarrow> (pystr \<times> pystr) list" where
  "re_Y s =
     (case s of
        a # b # c # d # r \<Rightarrow>
          if isdecimal_ch a \<and> isdecimal_ch b \<and> isdecimal_ch c \<and> isdecimal_ch d
          then [([a, b, c, d], r)] else []
      | _ \<Rightarrow> [])"

definition re_dot :: "pystr \<Rightarrow> pystr list" where
  "re_dot s = (case s of c # r \<Rightarrow> if c = 46 then [r] else [] | _ \<Rightarrow> [])"

definition format_regex_match :: "pystr \<Rightarrow> (pystr \<times> pystr \<times> pystr \<times> pystr) list" where
  "format_regex_match s =
     List.bind (re_d s) (\<lambda>(d, r1).
     List.bind (re_dot r1) (\<lambda>r2.
     List.bind (re_m r2) (\<lambda>(m, r3).
     List.bind (re_dot r3) (\<lambda>r4.
     List.bind (re_Y r4) (\<lambda>(y, r5). [(d, m, y, r5)])))))"

definition strptime_dmY :: "pystr \<Rightarrow> error + date" where
  "strptime_dmY v =
     (case format_regex_match v of
        [] \<Rightarrow> Inl (ValueError NoMatch)
      | (d, m, y, rest) # _ \<Rightarrow>
          if rest \<noteq> [] then Inl (ValueError Unconverted)
          else date_new (py_int y) (py_int m) (py_int d))"

section \<open>Fields\<close>

text \<open>
  A \<open>Field\<close> holds one attribute, its text, so a \<open>Name\<close> and a \<open>Phone\<close> are their
  texts; a \<open>Birthday\<close> holds the text and the parsed date.  A constructor that raises
  returns \<open>Inl\<close>.
\<close>

definition Name_init :: "pystr \<Rightarrow> error + pystr" where
  "Name_init v =
     (if v = [] \<or> strip v = [] then Inl (ValueError EmptyName) else Inr (strip v))"

definition Phone_init :: "pystr \<Rightarrow> error + pystr" where
  "Phone_init v =
     (if \<not> isdigit v \<or> length v \<noteq> 10 then Inl (ValueError PhoneFormat) else Inr v)"

record Birthday =
  btext :: pystr
  bdate :: date

definition Birthday_init :: "pystr \<Rightarrow> error + Birthday" where
  "Birthday_init v =
     (case strptime_dmY v of
        Inl e \<Rightarrow> Inl (ValueError DateFormat)
      | Inr dt \<Rightarrow> Inr \<lparr>btext = v, bdate = dt\<rparr>)"

section \<open>Records\<close>

record Record =
  name :: pystr
  phones :: "pystr list"
  birthday :: "Birthday option"

text \<open>
  A method that mutates its record returns what it returns or raises together with the
  record as the call leaves it: an exception does not undo what was stored before it.
\<close>

definition Record_init :: "pystr \<Rightarrow> error + Record" where
  "Record_init nm =
     (case Name_init nm of
        Inl e \<Rightarrow> Inl e
      | Inr n \<Rightarrow> Inr \<lparr>name = n, phones = [], birthday = None\<rparr>)"

definition add_phone :: "pystr \<Rightarrow> Record \<Rightarrow> (error + unit) \<times> Record" where
  "add_phone phone_number r =
     (case Phone_init phone_number of
        Inl e \<Rightarrow> (Inl e, r)
      | Inr phone \<Rightarrow> (Inr (), r\<lparr>phones := phones r @ [phone]\<rparr>))"

fun find_phone_in :: "pystr list \<Rightarrow> pystr \<Rightarrow> pystr option" where
  "find_phone_in [] phone_number = None"
| "find_phone_in (phone # rest) phone_number =
     (if phone = phone_number then Some phone else find_phone_in rest phone_number)"

definition find_phone :: "pystr \<Rightarrow> Record \<Rightarrow> pystr option" where
  "find_phone phone_number r = find_phone_in (phones r) phone_number"

text \<open>
  \<open>remove_phone\<close> tests the object \<open>find_phone\<close> returned, and an object of a class
  without \<open>__bool__\<close> and \<open>__len__\<close> is true; \<open>list.remove\<close> then takes out the
  first element that is that object.
\<close>

definition remove_phone :: "pystr \<Rightarrow> Record \<Rightarrow> (error + unit) \<times> Record" where
  "remove_phone phone_number r =
     (case find_phone phone_number r of
        Some phone_to_remove \<Rightarrow> (Inr (), r\<lparr>phones := remove1 phone_to_remove (phones r)\<rparr>)
      | None \<Rightarrow> (Inl (ValueError PhoneNotFound), r))"

text \<open>
  The loop of \<open>edit_phone\<close> over the indices: at the first phone equal to the old one
  the new \<open>Phone\<close> is built and then stored at that index.
\<close>

function edit_phone_from ::
  "nat \<Rightarrow> pystr \<Rightarrow> pystr \<Rightarrow> Record \<Rightarrow> (error + unit) \<times> Record" where
  "edit_phone_from i old_phone_number new_phone_number r =
     (if i < length (phones r) then
        (if phones r ! i = old_phone_number then
           (case Phone_init new_phone_number of
              Inl e \<Rightarrow> (Inl e, r)
            | Inr phone \<Rightarrow> (Inr (), r\<lparr>phones := (phones r)[i := phone]\<rparr>))
         else edit_phone_from (i + 1) old_phone_number new_phone_number r)
      else (Inl (ValueError EditPhoneNotFound), r))"
  by pat_completeness auto
termination
  by (relation "measure (\<lambda>(i, old, new, r). length (phones r) - i)") auto

declare edit_phone_from.simps [simp del]

definition edit_phone :: "pystr \<Rightarrow> pystr \<Rightarrow> Record \<Rightarrow> (error + unit) \<times> Record" where
  "edit_phone old_phone_number new_phone_number r =
     edit_phone_from 0 old_phone_number new_phone_number r"

definition add_birthday :: "pystr \<Rightarrow> Record \<Rightarrow> (error + unit) \<times> Record" where
  "add_birthday v r =
     (case Birthday_init v of
        Inl e \<Rightarrow> (Inl e, r)
      | Inr b \<Rightarrow> (Inr (), r\<lparr>birthday := Some b\<rparr>))"

section \<open>The address book\<close>

text \<open>
  \<open>AddressBook\<close> is a \<open>UserDict\<close>: its \<open>data\<close> is a dictionary from the text of a
  name to the record, iterated in insertion order.  It is the list of its items in that
  order; storing under a key that is present keeps the key's place, storing under a new
  key appends.
\<close>

type_synonym AddressBook = "(pystr \<times> Record) list"

fun dict_set :: "'k \<Rightarrow> 'v \<Rightarrow> ('k \<times> 'v) list \<Rightarrow> ('k \<times> 'v) list" where
  "dict_set k v [] = [(k, v)]"
| "dict_set k v ((k', v') # rest) =
     (if k' = k then (k', v) # rest else (k', v') # dict_set k v rest)"

fun dict_del :: "'k \<Rightarrow> ('k \<times> 'v) list \<Rightarrow> ('k \<times> 'v) list" where
  "dict_del k [] = []"
| "dict_del k ((k', v') # rest) = (if k' = k then rest else (k', v') # dict_del k rest)"

definition add_record :: "Record \<Rightarrow> AddressBook \<Rightarrow> AddressBook" where
  "add_record r book = dict_set (name r) r book"

definition find_record :: "pystr \<Rightarrow> AddressBook \<Rightarrow> Record option" where
  "find_record nm book = map_of book nm"

definition delete_record :: "pystr \<Rightarrow> AddressBook \<Rightarrow> (error + unit) \<times> AddressBook" where
  "delete_record nm book =
     (if map_of book nm \<noteq> None then (Inr (), dict_del nm book)
      else (Inl (KeyError ContactNotFound), book))"

text \<open>
  \<open>get_upcoming_birthdays\<close> reads the clock once; \<open>today\<close> is that date.  The body of
  its loop in three steps: the birthday carried to this year or the next, the move of a
  weekend day to Monday, and the loop itself, which appends to the list it returns.
\<close>

record entry =
  ename :: pystr
  congratulation_date :: pystr

definition birthday_this_year :: "date \<Rightarrow> date \<Rightarrow> error + date" where
  "birthday_this_year today birthday_date =
     (case replace_year birthday_date (year today) of
        Inl e \<Rightarrow> Inl e
      | Inr this_year \<Rightarrow>
          if date_less this_year today then replace_year birthday_date (year today + 1)
          else Inr this_year)"

definition congratulation :: "date \<Rightarrow> error + date" where
  "congratulation this_year =
     (if weekday this_year = 5 then date_add this_year 2
      else if weekday this_year = 6 then date_add this_year 1
      else Inr this_year)"

fun upcoming_loop :: "date \<Rightarrow> Record list \<Rightarrow> entry list \<Rightarrow> error + entry list" where
  "upcoming_loop today [] upcoming_birthdays = Inr upcoming_birthdays"
| "upcoming_loop today (r # rest) upcoming_birthdays =
     (case birthday r of
        None \<Rightarrow> upcoming_loop today rest upcoming_birthdays
      | Some b \<Rightarrow>
          (case birthday_this_year today (bdate b) of
             Inl e \<Rightarrow> Inl e
           | Inr this_year \<Rightarrow>
               let days_until_birthday = date_sub this_year today
               in if 0 \<le> days_until_birthday \<and> days_until_birthday \<le> 7 then
                    (case congratulation this_year of
                       Inl e \<Rightarrow> Inl e
                     | Inr cd \<Rightarrow>
                         upcoming_loop today rest
                           (upcoming_birthdays @
                              [\<lparr>ename = name r, congratulation_date = strftime_dmY cd\<rparr>]))
                  else upcoming_loop today rest upcoming_birthdays))"

definition get_upcoming_birthdays :: "date \<Rightarrow> AddressBook \<Rightarrow> error + entry list" where
  "get_upcoming_birthdays today book = upcoming_loop today (map snd book) []"

section \<open>The command that adds a contact\<close>

text \<open>
  \<open>add_contact\<close> under its decorator \<open>input_error\<close>, which returns the text of a caught
  exception instead of raising it: \<open>Inl e\<close> stands for that reply, \<open>Inr\<close> for the
  message of a call that went through.  The record the command holds is the object stored
  in the book, so adding the phone to it changes the book's entry under \<open>key\<close>.
\<close>

definition add_phone_at :: "pystr \<Rightarrow> pystr \<Rightarrow> pystr \<Rightarrow> Record \<Rightarrow> AddressBook \<Rightarrow>
    (error + pystr) \<times> AddressBook" where
  "add_phone_at key phone message r book =
     (if phone \<noteq> [] then
        (case add_phone phone r of
           (Inl e, r') \<Rightarrow> (Inl e, dict_set key r' book)
         | (Inr u, r') \<Rightarrow> (Inr message, dict_set key r' book))
      else (Inr message, book))"

definition add_contact :: "pystr list \<Rightarrow> AddressBook \<Rightarrow> (error + pystr) \<times> AddressBook" where
  "add_contact args book =
     (if length args < 2 then (Inl (IndexError NeedNamePhone), book)
      else
        let nm = args ! 0; phone = args ! 1
        in case find_record nm book of
             None \<Rightarrow>
               (case Record_init nm of
                  Inl e \<Rightarrow> (Inl e, book)
                | Inr r \<Rightarrow>
                    add_phone_at (name r) phone (ascii ''Contact added.'') r
                      (add_record r book))
           | Some r \<Rightarrow> add_phone_at nm phone (ascii ''Contact updated.'') r book)"

section \<open>Sequences of operations\<close>

text \<open>
  The states a book can reach: from the empty book by adding records (made by \<open>Record\<close>
  and changed by their own methods before they are added), deleting, and changing a
  stored record found by its name.  A call that raises leaves what it had stored, and the
  next call goes on from there.
\<close>

datatype record_op =
    AddPhone pystr | RemovePhone pystr | EditPhone pystr pystr | AddBirthday pystr

fun record_step :: "record_op \<Rightarrow> Record \<Rightarrow> Record" where
  "record_step (AddPhone p) r = snd (add_phone p r)"
| "record_step (RemovePhone p) r = snd (remove_phone p r)"
| "record_step (EditPhone p q) r = snd (edit_phone p q r)"
| "record_step (AddBirthday v) r = snd (add_birthday v r)"

datatype book_op =
    AddRecord pystr "record_op list" | Delete pystr | Mutate pystr record_op

fun book_step :: "book_op \<Rightarrow> AddressBook \<Rightarrow> AddressBook" where
  "book_step (AddRecord raw ops) book =
     (case Record_init raw of
        Inl e \<Rightarrow> book
      | Inr r \<Rightarrow> add_record (foldl (\<lambda>r' op. record_step op r') r ops) book)"
| "book_step (Delete nm) book = snd (delete_record nm book)"
| "book_step (Mutate nm op) book =
     (case find_record nm book of
        None \<Rightarrow> book
      | Some r \<Rightarrow> dict_set nm (record_step op r) book)"

definition run :: "book_op list \<Rightarrow> AddressBook" where
  "run ops = foldl (\<lambda>book op. book_step op book) [] ops"

section \<open>The birthday window as the specification words it\<close>

text \<open>
  The specification's algorithm, read by itself: the birthday's month and day are put
  on the reference date's year; if that day is strictly before the reference date, they
  are put on the next year; the days until then are counted; a record is included when
  it has a birthday and the count is between 0 and 7.  \<open>projectable\<close> says that the
  dates this names exist in the calendar.
\<close>

definition on_year :: "int \<Rightarrow> date \<Rightarrow> date" where
  "on_year y bd = \<lparr>year = y, month = month bd, day = day bd\<rparr>"

definition spec_this_year :: "date \<Rightarrow> date \<Rightarrow> date" where
  "spec_this_year today bd =
     (if date_less (on_year (year today) bd) today then on_year (year today + 1) bd
      else on_year (year today) bd)"

definition spec_days_until :: "date \<Rightarrow> date \<Rightarrow> int" where
  "spec_days_until today bd = toordinal (spec_this_year today bd) - toordinal today"

definition included :: "date \<Rightarrow> Record \<Rightarrow> bool" where
  "included today r =
     (case birthday r of
        None \<Rightarrow> False
      | Some b \<Rightarrow> 0 \<le> spec_days_until today (bdate b) \<and> spec_days_until today (bdate b) \<le> 7)"

definition projectable :: "date \<Rightarrow> date \<Rightarrow> bool" where
  "projectable today bd =
     (valid_date (on_year (year today) bd) \<and> valid_date (spec_this_year today bd))"

definition all_projectable :: "date \<Rightarrow> Record list \<Rightarrow> bool" where
  "all_projectable today rs =
     list_all (\<lambda>r. case birthday r of None \<Rightarrow> True | Some b \<Rightarrow> projectable today (bdate b)) rs"

text \<open>
  The congratulation date in the specification's words: the day itself, moved forward by
  two days from a Saturday and by one day from a Sunday; and the entry reported for an
  included record (a record without a birthday is never included, and gets no date).
\<close>

definition spec_congratulation :: "date \<Rightarrow> date" where
  "spec_congratulation ty =
     (if weekday ty = 5 then fromordinal (toordinal ty + 2)
      else if weekday ty = 6 then fromordinal (toordinal ty + 1) else ty)"

definition spec_entry :: "date \<Rightarrow> Record \<Rightarrow> entry" where
  "spec_entry today r =
     (case birthday r of
        None \<Rightarrow> \<lparr>ename = name r, congratulation_date = []\<rparr>
      | Some b \<Rightarrow>
          \<lparr>ename = name r,
           congratulation_date =
             strftime_dmY (spec_congratulation (spec_this_year today (bdate b)))\<rparr>)"

section \<open>The texts a birthday is made from\<close>

text \<open>
  The texts \<open>Birthday\<close> accepts, described without the matcher: the text is cut at its
  first two dots into day, month and year.  The day is a digit 1 to 9, alone or after a
  zero or a blank, or 1 or 2 and then any decimal digit, or 30 or 31; the month is a digit
  1 to 9, alone or after a zero, or 10, 11 or 12; the year is four decimal digits; and the
  three numbers are a date of the calendar.
\<close>

definition day_text :: "pystr \<Rightarrow> bool" where
  "day_text d =
     (case d of
        [a] \<Rightarrow> between 49 57 a
      | [a, b] \<Rightarrow>
          (a = 51 \<and> between 48 49 b) \<or> (between 49 50 a \<and> isdecimal_ch b) \<or>
          (a = 48 \<and> between 49 57 b) \<or> (a = 32 \<and> between 49 57 b)
      | _ \<Rightarrow> False)"

definition month_text :: "pystr \<Rightarrow> bool" where
  "month_text m =
     (case m of
        [a] \<Rightarrow> between 49 57 a
      | [a, b] \<Rightarrow> (a = 49 \<and> between 48 50 b) \<or> (a = 48 \<and> between 49 57 b)
      | _ \<Rightarrow> False)"

definition year_text :: "pystr \<Rightarrow> bool" where
  "year_text y = (length y = 4 \<and> list_all isdecimal_ch y)"

definition split_dot :: "pystr \<Rightarrow> (pystr \<times> pystr) option" where
  "split_dot s =
     (case dropWhile (\<lambda>c. c \<noteq> 46) s of
        [] \<Rightarrow> None
      | c # r \<Rightarrow> Some (takeWhile (\<lambda>c. c \<noteq> 46) s, r))"

definition split_dmY :: "pystr \<Rightarrow> (pystr \<times> pystr \<times> pystr) option" where
  "split_dmY s =
     (case split_dot s of
        None \<Rightarrow> None
      | Some (d, r) \<Rightarrow>
          (case split_dot r of None \<Rightarrow> None | Some (m, y) \<Rightarrow> Some (d, m, y)))"

definition accepted_birthday :: "pystr \<Rightarrow> Birthday option" where
  "accepted_birthday s =
     (case split_dmY s of
        None \<Rightarrow> None
      | Some (d, m, y) \<Rightarrow>
          if day_text d \<and> month_text m \<and> year_text y \<and>
             valid_date \<lparr>year = py_int y, month = py_int m, day = py_int d\<rparr>
          then Some \<lparr>btext = s,
                     bdate = \<lparr>year = py_int y, month = py_int m, day = py_int d\<rparr>\<rparr>
          else None)"

text \<open>
  The pattern as the specification words it: two characters for the day, two for the
  month, four for the year, digits all, with a dot after the day and after the month.
\<close>

definition dd_mm_yyyy :: "pystr \<Rightarrow> bool" where
  "dd_mm_yyyy s =
     (length s = 10 \<and> s ! 2 = 46 \<and> s ! 5 = 46 \<and>
      list_all isdigit_ch (take 2 s @ take 2 (drop 3 s) @ drop 6 s))"

text \<open>
  The ten characters DD.MM.YYYY of a date: two digits of the day, a dot, two digits of
  the month, a dot, four digits of the year.
\<close>

definition text_dd_mm_yyyy :: "date \<Rightarrow> pystr" where
  "text_dd_mm_yyyy dt =
     [48 + nat (day dt div 10), 48 + nat (day dt mod 10), 46,
      48 + nat (month dt div 10), 48 + nat (month dt mod 10), 46,
      48 + nat (year dt div 1000), 48 + nat (year dt div 100 mod 10),
      48 + nat (year dt div 10 mod 10), 48 + nat (year dt mod 10)]"

text \<open>
  What the operations keep true of a book: a record is stored under the text of its own
  name, and that text is one \<open>strip\<close> leaves as it is.
\<close>

definition keyed :: "AddressBook \<Rightarrow> bool" where
  "keyed book = (\<forall>(k, r) \<in> set book. name r = k \<and> strip k = k)"

section \<open>Dictionaries\<close>

lemma map_of_dict_set: "map_of (dict_set k v xs) = (map_of xs)(k \<mapsto> v)"
  by (induction xs) (auto simp: fun_eq_iff)

lemma set_dict_set: "set (dict_set k v xs) \<subseteq> insert (k, v) (set xs)"
  by (induction xs) (auto split: if_splits)

lemma set_dict_del: "set (dict_del k xs) \<subseteq> set xs"
  by (induction xs) (auto split: if_splits)

lemma dict_del_absent: "map_of xs k = None \<Longrightarrow> dict_del k xs = xs"
  by (induction xs) (auto split: if_splits)

lemma map_of_None_iff: "map_of xs k = None \<longleftrightarrow> k \<notin> fst ` set xs"
  by (simp add: map_of_eq_None_iff)

section \<open>Phones\<close>

lemma Phone_init_cases:
  "Phone_init v = (if isdigit v \<and> length v = 10 then Inr v else Inl (ValueError PhoneFormat))"
  by (simp add: Phone_init_def)

lemma find_phone_in_None: "find_phone_in ps p = None \<longleftrightarrow> p \<notin> set ps"
  by (induction ps) auto

lemma edit_phone_from_invalid:
  "\<not> (isdigit new \<and> length new = 10) \<Longrightarrow>
   \<exists>j. i \<le> j \<and> j < length (phones r) \<and> phones r ! j = old \<Longrightarrow>
   edit_phone_from i old new r = (Inl (ValueError PhoneFormat), r)"
proof (induction i old new r rule: edit_phone_from.induct)
  case (1 i old new r)
  from "1.prems"(2) obtain j where j: "i \<le> j" "j < length (phones r)" "phones r ! j = old"
    by blast
  then have lt: "i < length (phones r)" by simp
  show ?case
  proof (cases "phones r ! i = old")
    case True
    with lt "1.prems"(1) show ?thesis
      by (subst edit_phone_from.simps) (simp add: Phone_init_cases)
  next
    case False
    with j have "i \<noteq> j" by auto
    with j have "\<exists>j. i + 1 \<le> j \<and> j < length (phones r) \<and> phones r ! j = old"
      by (intro exI[of _ j]) simp
    with "1.IH"[OF lt False "1.prems"(1)] have
      "edit_phone_from (i + 1) old new r = (Inl (ValueError PhoneFormat), r)" by simp
    with lt False show ?thesis
      by (subst edit_phone_from.simps) simp
  qed
qed

lemma edit_phone_invalid:
  assumes "old \<in> set (phones r)" and "\<not> (isdigit new \<and> length new = 10)"
  shows "edit_phone old new r = (Inl (ValueError PhoneFormat), r)"
proof -
  from assms(1) obtain j where "j < length (phones r)" "phones r ! j = old"
    by (auto simp: in_set_conv_nth)
  then have "\<exists>j. 0 \<le> j \<and> j < length (phones r) \<and> phones r ! j = old" by blast
  from edit_phone_from_invalid[OF assms(2) this] show ?thesis
    by (simp add: edit_phone_def)
qed

lemma remove_phone_absent:
  "p \<notin> set (phones r) \<Longrightarrow> remove_phone p r = (Inl (ValueError PhoneNotFound), r)"
  by (simp add: remove_phone_def find_phone_def find_phone_in_None[THEN iffD2])

lemma delete_record_absent:
  "nm \<notin> fst ` set book \<Longrightarrow> delete_record nm book = (Inl (KeyError ContactNotFound), book)"
  by (simp add: delete_record_def map_of_None_iff)

section \<open>strip\<close>

lemma strip_prefix: "\<exists>zs. dropWhile isspace_ch s = strip s @ zs"
proof -
  let ?t = "dropWhile isspace_ch s"
  have "rev (takeWhile isspace_ch (rev ?t) @ dropWhile isspace_ch (rev ?t)) = ?t" by simp
  then have "rev (dropWhile isspace_ch (rev ?t)) @ rev (takeWhile isspace_ch (rev ?t)) = ?t"
    by (simp only: rev_append)
  then have "?t = strip s @ rev (takeWhile isspace_ch (rev ?t))"
    by (simp add: strip_def)
  then show ?thesis by blast
qed

lemma strip_hd: "strip s \<noteq> [] \<Longrightarrow> \<not> isspace_ch (hd (strip s))"
proof -
  assume ne: "strip s \<noteq> []"
  obtain zs where zs: "dropWhile isspace_ch s = strip s @ zs" using strip_prefix by blast
  with ne have "dropWhile isspace_ch s \<noteq> []" by auto
  then have "\<not> isspace_ch (hd (dropWhile isspace_ch s))" by (rule hd_dropWhile)
  with zs ne show ?thesis by simp
qed

lemma strip_last: "strip s \<noteq> [] \<Longrightarrow> \<not> isspace_ch (last (strip s))"
proof -
  assume ne: "strip s \<noteq> []"
  let ?u = "dropWhile isspace_ch (rev (dropWhile isspace_ch s))"
  from ne have "?u \<noteq> []" by (simp add: strip_def)
  then have "\<not> isspace_ch (hd ?u)" by (rule hd_dropWhile)
  moreover have "last (strip s) = hd ?u" using \<open>?u \<noteq> []\<close> by (simp add: strip_def last_rev)
  ultimately show ?thesis by simp
qed

lemma strip_fixed: "s = [] \<or> (\<not> isspace_ch (hd s) \<and> \<not> isspace_ch (last s)) \<Longrightarrow> strip s = s"
proof (cases "s = []")
  case True then show ?thesis by (simp add: strip_def)
next
  case False
  assume "s = [] \<or> (\<not> isspace_ch (hd s) \<and> \<not> isspace_ch (last s))"
  with False have h: "\<not> isspace_ch (hd s)" and l: "\<not> isspace_ch (last s)" by auto
  from False h have 1: "dropWhile isspace_ch s = s" by (cases s) auto
  from False l have "\<not> isspace_ch (hd (rev s))" by (simp add: hd_rev)
  with False have 2: "dropWhile isspace_ch (rev s) = rev s" by (cases "rev s") auto
  show ?thesis by (simp add: strip_def 1 2)
qed

lemma strip_idem: "strip (strip s) = strip s"
  using strip_fixed[of "strip s"] strip_hd[of s] strip_last[of s] by blast

section \<open>Names and keys\<close>

lemma edit_phone_from_name: "name (snd (edit_phone_from i old new r)) = name r"
proof (induction i old new r rule: edit_phone_from.induct)
  case (1 i old new r)
  show ?case
  proof (cases "i < length (phones r) \<and> phones r ! i \<noteq> old")
    case True
    with "1.IH" show ?thesis by (subst edit_phone_from.simps) simp
  next
    case False
    then show ?thesis
      by (subst edit_phone_from.simps) (auto split: sum.splits)
  qed
qed

lemma record_step_name: "name (record_step op r) = name r"
  by (cases op)
     (simp_all add: add_phone_def remove_phone_def edit_phone_def edit_phone_from_name
        add_birthday_def split: sum.splits option.splits)

lemma foldl_record_step_name: "name (foldl (\<lambda>r' op. record_step op r') r ops) = name r"
  by (induction ops arbitrary: r) (simp_all add: record_step_name)

lemma Record_init_Inr:
  "Record_init raw = Inr r \<Longrightarrow> r = \<lparr>name = strip raw, phones = [], birthday = None\<rparr>"
  by (auto simp: Record_init_def Name_init_def split: if_splits)

lemma Record_init_nonblank:
  "strip raw \<noteq> [] \<Longrightarrow> Record_init raw = Inr \<lparr>name = strip raw, phones = [], birthday = None\<rparr>"
  by (auto simp: Record_init_def Name_init_def strip_def)

lemma keyed_dict_set: "keyed book \<Longrightarrow> name r = k \<Longrightarrow> strip k = k \<Longrightarrow> keyed (dict_set k r book)"
  using set_dict_set[of k r book] by (fastforce simp: keyed_def)

lemma keyed_dict_del: "keyed book \<Longrightarrow> keyed (dict_del k book)"
  using set_dict_del[of k book] by (fastforce simp: keyed_def)

lemma keyed_book_step: "keyed book \<Longrightarrow> keyed (book_step op book)"
proof (cases op)
  case (AddRecord raw ops)
  assume k: "keyed book"
  show ?thesis
  proof (cases "Record_init raw")
    case (Inl e)
    with AddRecord k show ?thesis by simp
  next
    case (Inr r)
    then have r: "name r = strip raw" by (auto dest: Record_init_Inr)
    let ?r = "foldl (\<lambda>r' op. record_step op r') r ops"
    have "keyed (dict_set (name ?r) ?r book)"
      by (rule keyed_dict_set[OF k]) (simp_all add: foldl_record_step_name r strip_idem)
    with AddRecord Inr show ?thesis by (simp add: add_record_def)
  qed
next
  case (Delete nm)
  assume "keyed book"
  with Delete show ?thesis by (simp add: delete_record_def keyed_dict_del)
next
  case (Mutate nm rop)
  assume k: "keyed book"
  show ?thesis
  proof (cases "find_record nm book")
    case None
    with Mutate k show ?thesis by simp
  next
    case (Some r)
    then have "(nm, r) \<in> set book" by (simp add: find_record_def map_of_SomeD)
    with k have "name r = nm" "strip nm = nm" by (auto simp: keyed_def)
    then have "keyed (dict_set nm (record_step rop r) book)"
      by (intro keyed_dict_set[OF k]) (simp_all add: record_step_name)
    with Mutate Some show ?thesis by simp
  qed
qed

lemma keyed_foldl: "keyed book \<Longrightarrow> keyed (foldl (\<lambda>book op. book_step op book) book ops)"
  by (induction ops arbitrary: book) (simp_all add: keyed_book_step)

lemma keyed_run: "keyed (run ops)"
  unfolding run_def by (rule keyed_foldl) (simp add: keyed_def)

text \<open>
  C9.  In every book reached from the empty one by adding records, deleting, and
  changing stored records through their methods, each record is stored under the text
  of its own name.
\<close>

theorem name_equals_key: "\<forall>(k, r) \<in> set (run ops). name r = k"
  using keyed_run[of ops] by (auto simp: keyed_def)

text \<open>
  C10.  A raw name that is not blank but has whitespace at an end makes a record named by
  the stripped text; added to a book that the operations can reach, the record is found
  under the stripped name and nothing is found under the raw text.
\<close>

theorem trimmed_name_is_key:
  assumes "strip raw \<noteq> []" and "strip raw \<noteq> raw"
  shows "Record_init raw = Inr \<lparr>name = strip raw, phones = [], birthday = None\<rparr> \<and>
         find_record (strip raw)
           (add_record \<lparr>name = strip raw, phones = [], birthday = None\<rparr> (run ops)) =
             Some \<lparr>name = strip raw, phones = [], birthday = None\<rparr> \<and>
         find_record raw
           (add_record \<lparr>name = strip raw, phones = [], birthday = None\<rparr> (run ops)) = None"
proof -
  have "map_of (run ops) raw = None"
  proof (rule ccontr)
    assume "map_of (run ops) raw \<noteq> None"
    then obtain r where "(raw, r) \<in> set (run ops)" by (auto dest: map_of_SomeD)
    with keyed_run[of ops] have "strip raw = raw" by (auto simp: keyed_def)
    with assms(2) show False by simp
  qed
  with assms show ?thesis
    by (simp add: Record_init_nonblank find_record_def add_record_def map_of_dict_set)
qed

lemmas eval_defs = ascii_def strip_def isspace_ch_def in_ranges_def space_ranges_def
  Record_init_def Name_init_def run_def add_record_def find_record_def

theorem trimmed_name_is_key_witness:
  "strip (ascii '' Bob '') \<noteq> [] \<and> strip (ascii '' Bob '') \<noteq> ascii '' Bob '' \<and>
   strip (ascii '' Bob '') = ascii ''Bob'' \<and>
   find_record (ascii ''Bob'')
     (add_record \<lparr>name = ascii ''Bob'', phones = [], birthday = None\<rparr>
        (run [AddRecord (ascii ''Ann'') []])) =
       Some \<lparr>name = ascii ''Bob'', phones = [], birthday = None\<rparr> \<and>
   find_record (ascii '' Bob '')
     (add_record \<lparr>name = ascii ''Bob'', phones = [], birthday = None\<rparr>
        (run [AddRecord (ascii ''Ann'') []])) = None"
proof -
  have s: "strip (ascii '' Bob '') = ascii ''Bob''" by (simp add: eval_defs)
  have h1: "strip (ascii '' Bob '') \<noteq> []" by (simp add: eval_defs)
  have h2: "strip (ascii '' Bob '') \<noteq> ascii '' Bob ''" by (simp add: eval_defs)
  from trimmed_name_is_key[OF h1 h2, of "[AddRecord (ascii ''Ann'') []]"] h1 h2 s
  show ?thesis by simp
qed

theorem name_equals_key_witness:
  "run [AddRecord (ascii '' Ann'') [AddPhone (ascii ''1234567890'')], Mutate (ascii ''Ann'') (AddPhone (ascii ''12'')),
        AddRecord (ascii ''Bob'') [], Delete (ascii ''Bob'')] =
     [(ascii ''Ann'', \<lparr>name = ascii ''Ann'', phones = [ascii ''1234567890''], birthday = None\<rparr>)] \<and>
   list_all (\<lambda>(k, r). name r = k)
     (run [AddRecord (ascii '' Ann'') [AddPhone (ascii ''1234567890'')], Mutate (ascii ''Ann'') (AddPhone (ascii ''12'')),
        AddRecord (ascii ''Bob'') [], Delete (ascii ''Bob'')])"
  using name_equals_key[of "[AddRecord (ascii '' Ann'') [AddPhone (ascii ''1234567890'')], Mutate (ascii ''Ann'') (AddPhone (ascii ''12'')),
        AddRecord (ascii ''Bob'') [], Delete (ascii ''Bob'')]"]
  by (simp add: eval_defs add_phone_def Phone_init_def isdigit_def isdigit_ch_def digit_ranges_def delete_record_def)

section \<open>Validated phones\<close>

lemmas phone_eval = ascii_def Phone_init_def isdigit_def isdigit_ch_def in_ranges_def
  digit_ranges_def

text \<open>
  C5, as the code has it.  \<open>Phone\<close> accepts exactly the texts of ten characters that
  \<open>str.isdigit\<close> takes for digits, which are more than the ASCII digits; it stores the
  text unchanged, and refuses every other text with the \<open>ValueError\<close> of the phone
  format.
\<close>

theorem Phone_init_accepts:
  "Phone_init s =
     (if length s = 10 \<and> list_all isdigit_ch s then Inr s else Inl (ValueError PhoneFormat))"
  by (auto simp: Phone_init_def isdigit_def)

theorem Phone_init_accepts_witness:
  "Phone_init (ascii ''1234567890'') = Inr (ascii ''1234567890'') \<and>
   Phone_init (ascii ''123'') = Inl (ValueError PhoneFormat) \<and>
   Phone_init [1633, 1634, 1635, 1636, 1637, 1638, 1639, 1640, 1641, 1632] =
     Inr [1633, 1634, 1635, 1636, 1637, 1638, 1639, 1640, 1641, 1632]"
  using Phone_init_accepts[of "ascii ''1234567890''"] Phone_init_accepts[of "ascii ''123''"]
    Phone_init_accepts[of "[1633, 1634, 1635, 1636, 1637, 1638, 1639, 1640, 1641, 1632]"]
  by (simp add: ascii_def isdigit_ch_def in_ranges_def digit_ranges_def)

text \<open>
  C5 as stated fails: ten times the superscript two (U+00B2) is accepted, and none of
  these characters is an ASCII digit.
\<close>

theorem Phone_init_not_ascii_only:
  "Phone_init [178, 178, 178, 178, 178, 178, 178, 178, 178, 178] =
     Inr [178, 178, 178, 178, 178, 178, 178, 178, 178, 178] \<and>
   \<not> list_all ascii_digit [178, 178, 178, 178, 178, 178, 178, 178, 178, 178]"
  by (simp add: phone_eval ascii_digit_def)

text \<open>
  C7, as the code has it.  When the old phone is in the record and the new one is a text
  that \<open>Phone\<close> refuses (not ten characters that \<open>str.isdigit\<close> takes for digits),
  \<open>edit_phone\<close> raises the \<open>ValueError\<close> of the phone format and the record, with its
  list of phones, is what it was.
\<close>

theorem edit_phone_atomic:
  assumes "old \<in> set (phones r)" and "\<not> (length new = 10 \<and> list_all isdigit_ch new)"
  shows "Phone_init new = Inl (ValueError PhoneFormat) \<and>
         edit_phone old new r = (Inl (ValueError PhoneFormat), r)"
proof -
  from assms(2) have h: "\<not> (isdigit new \<and> length new = 10)"
    by (auto simp: isdigit_def)
  from edit_phone_invalid[OF assms(1) h] h show ?thesis
    by (simp add: Phone_init_cases)
qed

theorem edit_phone_atomic_witness:
  "ascii ''5555555555'' \<in> set (phones \<lparr>name = ascii ''John'',
      phones = [ascii ''1234567890'', ascii ''5555555555''], birthday = None\<rparr>) \<and>
   \<not> (length (ascii ''12ab'') = 10 \<and> list_all isdigit_ch (ascii ''12ab'')) \<and>
   edit_phone (ascii ''5555555555'') (ascii ''12ab'')
     \<lparr>name = ascii ''John'', phones = [ascii ''1234567890'', ascii ''5555555555''],
      birthday = None\<rparr> =
     (Inl (ValueError PhoneFormat),
      \<lparr>name = ascii ''John'', phones = [ascii ''1234567890'', ascii ''5555555555''],
       birthday = None\<rparr>)"
proof -
  let ?r = "\<lparr>name = ascii ''John'', phones = [ascii ''1234567890'', ascii ''5555555555''],
             birthday = None\<rparr>"
  have h1: "ascii ''5555555555'' \<in> set (phones ?r)" by simp
  have h2: "\<not> (length (ascii ''12ab'') = 10 \<and> list_all isdigit_ch (ascii ''12ab''))"
    by (simp add: ascii_def)
  from edit_phone_atomic[OF h1 h2] h1 h2 show ?thesis by simp
qed

text \<open>
  C7 as stated fails: ten times the superscript two (U+00B2) is not a text of ten ASCII
  digits, and yet \<open>edit_phone\<close> with it as the new phone goes through and puts it in
  the place of the old phone.
\<close>

theorem edit_phone_superscript_digits:
  "\<not> list_all ascii_digit [178, 178, 178, 178, 178, 178, 178, 178, 178, 178] \<and>
   edit_phone (ascii ''1234567890'') [178, 178, 178, 178, 178, 178, 178, 178, 178, 178]
     \<lparr>name = ascii ''John'', phones = [ascii ''1234567890'', ascii ''5555555555''],
      birthday = None\<rparr> =
     (Inr (),
      \<lparr>name = ascii ''John'',
       phones = [[178, 178, 178, 178, 178, 178, 178, 178, 178, 178], ascii ''5555555555''],
       birthday = None\<rparr>)"
  by (simp add: edit_phone_def edit_phone_from.simps phone_eval ascii_digit_def)

text \<open>
  C8.  \<open>remove_phone\<close> with a phone that is not in the record raises its not-found
  error and leaves the record as it was; \<open>delete\<close> with a name that is not a key raises
  its not-found error and leaves the book as it was.
\<close>

theorem not_found_unchanged:
  "(p \<notin> set (phones r) \<longrightarrow> remove_phone p r = (Inl (ValueError PhoneNotFound), r)) \<and>
   (nm \<notin> fst ` set book \<longrightarrow>
      delete_record nm book = (Inl (KeyError ContactNotFound), book))"
  by (simp add: remove_phone_absent delete_record_absent)

theorem not_found_unchanged_witness:
  "ascii ''0000000000'' \<notin> set (phones \<lparr>name = ascii ''John'',
      phones = [ascii ''1234567890''], birthday = None\<rparr>) \<and>
   remove_phone (ascii ''0000000000'')
     \<lparr>name = ascii ''John'', phones = [ascii ''1234567890''], birthday = None\<rparr> =
     (Inl (ValueError PhoneNotFound),
      \<lparr>name = ascii ''John'', phones = [ascii ''1234567890''], birthday = None\<rparr>) \<and>
   ascii ''Jane'' \<notin> fst ` set [(ascii ''John'',
      \<lparr>name = ascii ''John'', phones = [ascii ''1234567890''], birthday = None\<rparr>)] \<and>
   delete_record (ascii ''Jane'')
     [(ascii ''John'',
       \<lparr>name = ascii ''John'', phones = [ascii ''1234567890''], birthday = None\<rparr>)] =
     (Inl (KeyError ContactNotFound),
      [(ascii ''John'',
        \<lparr>name = ascii ''John'', phones = [ascii ''1234567890''], birthday = None\<rparr>)])"
  using not_found_unchanged[of "ascii ''0000000000''"
      "\<lparr>name = ascii ''John'', phones = [ascii ''1234567890''], birthday = None\<rparr>"
      "ascii ''Jane''"
      "[(ascii ''John'',
        \<lparr>name = ascii ''John'', phones = [ascii ''1234567890''], birthday = None\<rparr>)]"]
  by (simp add: ascii_def)

section \<open>A contact added with a phone that is refused\<close>

lemma dict_set_idem: "dict_set k v (dict_set k v xs) = dict_set k v xs"
  by (induction xs) auto

text \<open>
  C1 does not hold of the code.  \<open>add_contact\<close> stores the new record before it
  validates the phone: for a name that is not a key and not blank, and a phone that is
  not empty and not ten digits, the call replies with the \<open>ValueError\<close> of the phone
  format, and the book afterwards holds a record without phones under the stripped name.
\<close>

theorem add_contact_stores_before_validating:
  assumes "find_record nm book = None" and "strip nm \<noteq> []"
    and "phone \<noteq> []" and "\<not> (isdigit phone \<and> length phone = 10)"
  shows "add_contact [nm, phone] book =
           (Inl (ValueError PhoneFormat),
            add_record \<lparr>name = strip nm, phones = [], birthday = None\<rparr> book) \<and>
         find_record (strip nm)
           (add_record \<lparr>name = strip nm, phones = [], birthday = None\<rparr> book) =
           Some \<lparr>name = strip nm, phones = [], birthday = None\<rparr>"
  using assms
  by (simp add: add_contact_def Let_def Record_init_nonblank add_phone_at_def add_phone_def
      Phone_init_cases add_record_def dict_set_idem find_record_def map_of_dict_set)

theorem add_contact_invalid_phone_leaves_record:
  "find_record (ascii ''Test'') [] = None \<and> strip (ascii ''Test'') = ascii ''Test'' \<and>
   \<not> (isdigit (ascii ''123'') \<and> length (ascii ''123'') = 10) \<and>
   add_contact [ascii ''Test'', ascii ''123''] [] =
     (Inl (ValueError PhoneFormat),
      [(ascii ''Test'', \<lparr>name = ascii ''Test'', phones = [], birthday = None\<rparr>)]) \<and>
   find_record (ascii ''Test'')
     [(ascii ''Test'', \<lparr>name = ascii ''Test'', phones = [], birthday = None\<rparr>)] =
     Some \<lparr>name = ascii ''Test'', phones = [], birthday = None\<rparr>"
proof -
  have s: "strip (ascii ''Test'') = ascii ''Test''" by (simp add: eval_defs)
  have h1: "find_record (ascii ''Test'') [] = None" by (simp add: find_record_def)
  have h2: "strip (ascii ''Test'') \<noteq> []" by (simp add: eval_defs)
  have h3: "ascii ''123'' \<noteq> []" by (simp add: ascii_def)
  have h4: "\<not> (isdigit (ascii ''123'') \<and> length (ascii ''123'') = 10)"
    by (simp add: ascii_def)
  from add_contact_stores_before_validating[OF h1 h2 h3 h4] h1 h4 s show ?thesis
    by (simp add: add_record_def)
qed

section \<open>Calendar arithmetic\<close>


lemma div_succ_int:
  fixes z c :: int
  assumes "0 < c"
  shows "(z + 1) div c = z div c + (if (z + 1) mod c = 0 then 1 else 0)"
proof -
  define q where "q = z div c"
  define r where "r = z mod c"
  have r: "0 \<le> r" "r < c" using assms by (simp_all add: r_def)
  have z: "z = c * q + r" by (simp add: q_def r_def)
  show ?thesis
  proof (cases "r + 1 = c")
    case True
    then have e: "z + 1 = c * (q + 1) + 0" using z by (simp add: algebra_simps)
    have "(z + 1) div c = q + 1" by (rule int_div_pos_eq[OF e]) (use assms in simp_all)
    moreover have "(z + 1) mod c = 0" by (rule int_mod_pos_eq[OF e]) (use assms in simp_all)
    ultimately show ?thesis by (simp add: q_def)
  next
    case False
    with r have lt: "r + 1 < c" by simp
    have e: "z + 1 = c * q + (r + 1)" using z by simp
    have "(z + 1) div c = q" by (rule int_div_pos_eq[OF e]) (use r lt in simp_all)
    moreover have "(z + 1) mod c = r + 1" by (rule int_mod_pos_eq[OF e]) (use r lt in simp_all)
    ultimately show ?thesis using r by (simp add: q_def)
  qed
qed

lemma mod_400_100: "(y::int) mod 400 = 0 \<Longrightarrow> y mod 100 = 0"
proof -
  assume h: "y mod 400 = 0"
  have "(100::int) dvd 400" by simp
  then have "y mod 400 mod 100 = y mod 100" by (rule mod_mod_cancel)
  with h show ?thesis by (simp only: mod_0)
qed

lemma mod_100_4: "(y::int) mod 100 = 0 \<Longrightarrow> y mod 4 = 0"
proof -
  assume h: "y mod 100 = 0"
  have "(4::int) dvd 100" by simp
  then have "y mod 100 mod 4 = y mod 4" by (rule mod_mod_cancel)
  with h show ?thesis by (simp only: mod_0)
qed

lemma leap_count:
  "(p400 \<Longrightarrow> p100) \<Longrightarrow> (p100 \<Longrightarrow> p4) \<Longrightarrow>
   (if p4 then 1 else 0) - (if p100 then 1 else 0) + (if p400 then 1 else 0) =
     (if p4 \<and> (\<not> p100 \<or> p400) then 1 else (0::int))"
  by (cases p4; cases p100; cases p400) simp_all

lemma step_core:
  fixes A B C A' B' C' a b c y :: int
  assumes "A' = A + a" "B' = B + b" "C' = C + c"
  shows "y * 365 + A' - B' + C' = (y - 1) * 365 + A - B + C + 365 + (a - b + c)"
  using assms by (simp add: algebra_simps)

lemma days_before_year_step:
  "days_before_year (y + 1) = days_before_year y + 365 + (if is_leap y then 1 else 0)"
proof -
  have a: "y div 4 = (y - 1) div 4 + (if y mod 4 = 0 then 1 else 0)"
    using div_succ_int[of 4 "y - 1"] by (simp only: diff_add_cancel zero_less_numeral if_True)
  have b: "y div 100 = (y - 1) div 100 + (if y mod 100 = 0 then 1 else 0)"
    using div_succ_int[of 100 "y - 1"] by (simp only: diff_add_cancel zero_less_numeral if_True)
  have c: "y div 400 = (y - 1) div 400 + (if y mod 400 = 0 then 1 else 0)"
    using div_succ_int[of 400 "y - 1"] by (simp only: diff_add_cancel zero_less_numeral if_True)
  have l: "(if y mod 4 = 0 then 1 else 0) - (if y mod 100 = 0 then 1 else 0) +
           (if y mod 400 = 0 then 1 else 0) = (if is_leap y then 1 else (0::int))"
    unfolding is_leap_def by (rule leap_count) (rule mod_400_100, assumption, rule mod_100_4)
  have "days_before_year (y + 1) = y * 365 + y div 4 - y div 100 + y div 400"
    unfolding days_before_year_def Let_def by (simp only: add_diff_cancel)
  also have "\<dots> = (y - 1) * 365 + (y - 1) div 4 - (y - 1) div 100 + (y - 1) div 400 + 365 +
      ((if y mod 4 = 0 then 1 else 0) - (if y mod 100 = 0 then 1 else 0) +
       (if y mod 400 = 0 then 1 else 0))"
    by (rule step_core[OF a b c])
  also have "\<dots> = days_before_year y + 365 + (if is_leap y then 1 else 0)"
    unfolding days_before_year_def Let_def by (simp only: l)
  finally show ?thesis .
qed

lemma days_before_year_mono: "y \<le> y' \<Longrightarrow> days_before_year y \<le> days_before_year y'"
proof (induction y' rule: int_ge_induct)
  case base
  show ?case by simp
next
  case (step i)
  then show ?case by (simp add: days_before_year_step)
qed

lemma month_cases:
  "1 \<le> m \<Longrightarrow> m \<le> 12 \<Longrightarrow>
   (m::int) = 1 \<or> m = 2 \<or> m = 3 \<or> m = 4 \<or> m = 5 \<or> m = 6 \<or> m = 7 \<or> m = 8 \<or> m = 9 \<or>
   m = 10 \<or> m = 11 \<or> m = 12"
  by arith

lemma days_before_year_1: "days_before_year 1 = 0"
  by (simp add: days_before_year_def)

lemma days_before_year_10000: "days_before_year 10000 = 3652059"
  by (simp add: days_before_year_def)

lemma month_within_year:
  assumes "1 \<le> m" "m \<le> 12" "1 \<le> d" "d \<le> days_in_month y m"
  shows "1 \<le> days_before_month y m + d"
    and "days_before_month y m + d \<le> 365 + (if is_leap y then 1 else 0)"
  using month_cases[OF assms(1,2)] assms(3,4)
  by (auto simp: days_before_month_def days_in_month_def DAYS_BEFORE_MONTH_def DAYS_IN_MONTH_def
      split: if_splits)

lemma toordinal_bounds:
  assumes "valid_date dt"
  shows "1 \<le> toordinal dt" and "toordinal dt \<le> MAXORDINAL"
proof -
  from assms have y: "1 \<le> year dt" "year dt \<le> 9999"
    and m: "1 \<le> month dt" "month dt \<le> 12"
    and d: "1 \<le> day dt" "day dt \<le> days_in_month (year dt) (month dt)"
    by (simp_all add: valid_date_def MINYEAR_def MAXYEAR_def)
  note w = month_within_year[OF m d]
  have "days_before_year 1 \<le> days_before_year (year dt)"
    using y by (intro days_before_year_mono) simp
  with w(1) show "1 \<le> toordinal dt"
    by (simp add: toordinal_def ymd2ord_def days_before_year_1)
  have "days_before_year (year dt + 1) \<le> days_before_year 10000"
    using y by (intro days_before_year_mono) simp
  with w(2) show "toordinal dt \<le> MAXORDINAL"
    by (simp add: toordinal_def ymd2ord_def days_before_year_step days_before_year_10000
        MAXORDINAL_def split: if_splits)
qed

lemma date_new_Inr:
  "date_new y m d = Inr dt \<Longrightarrow> valid_date dt \<and> year dt = y \<and> month dt = m \<and> day dt = d"
  by (auto simp: date_new_def valid_date_def split: if_splits)

lemma date_new_valid:
  "valid_date \<lparr>year = y, month = m, day = d\<rparr> \<Longrightarrow>
   date_new y m d = Inr \<lparr>year = y, month = m, day = d\<rparr>"
  by (auto simp: date_new_def valid_date_def)

lemma congratulation_total:
  assumes "valid_date ty"
  shows "congratulation ty =
     Inr (if weekday ty = 5 then fromordinal (toordinal ty + 2)
          else if weekday ty = 6 then fromordinal (toordinal ty + 1) else ty)"
proof -
  note b = toordinal_bounds[OF assms]
  have "weekday ty = 5 \<Longrightarrow> toordinal ty + 2 \<le> MAXORDINAL"
    using b unfolding weekday_def MAXORDINAL_def by presburger
  moreover have "weekday ty = 6 \<Longrightarrow> toordinal ty + 1 \<le> MAXORDINAL"
    using b unfolding weekday_def MAXORDINAL_def by presburger
  ultimately show ?thesis
    using b by (simp add: congratulation_def date_add_def Let_def)
qed

lemma birthday_this_year_valid:
  "birthday_this_year today bd = Inr ty \<Longrightarrow> valid_date ty"
  by (auto simp: birthday_this_year_def replace_year_def split: sum.splits if_splits
      dest: date_new_Inr)

lemma feb29_replace_fails:
  assumes "MINYEAR \<le> y" "y \<le> MAXYEAR" "\<not> is_leap y" "month bd = 2" "day bd = 29"
  shows "replace_year bd y = Inl (ValueError DayRange)"
  using assms
  by (simp add: replace_year_def date_new_def days_in_month_def DAYS_IN_MONTH_def)

section \<open>Upcoming birthdays\<close>

lemma birthday_this_year_projectable:
  "projectable today bd \<Longrightarrow> birthday_this_year today bd = Inr (spec_this_year today bd)"
  by (auto simp: projectable_def birthday_this_year_def replace_year_def spec_this_year_def
      on_year_def date_new_valid split: if_splits)

lemma birthday_this_year_Inr:
  "birthday_this_year today bd = Inr ty \<Longrightarrow> projectable today bd \<and> ty = spec_this_year today bd"
proof -
  assume h: "birthday_this_year today bd = Inr ty"
  then obtain p where p: "replace_year bd (year today) = Inr p"
    by (auto simp: birthday_this_year_def split: sum.splits)
  then have pv: "valid_date p" and pe: "p = on_year (year today) bd"
    by (auto simp: replace_year_def on_year_def dest: date_new_Inr)
  show ?thesis
  proof (cases "date_less p today")
    case True
    with h p have "replace_year bd (year today + 1) = Inr ty"
      by (simp add: birthday_this_year_def)
    then have "valid_date ty" "ty = on_year (year today + 1) bd"
      by (auto simp: replace_year_def on_year_def dest: date_new_Inr)
    with True pv pe show ?thesis by (simp add: projectable_def spec_this_year_def)
  next
    case False
    with h p have "ty = p" by (simp add: birthday_this_year_def)
    with False pv pe show ?thesis by (simp add: projectable_def spec_this_year_def)
  qed
qed

lemma upcoming_loop_projectable:
  "all_projectable today rs \<Longrightarrow>
   upcoming_loop today rs acc = Inr (acc @ map (spec_entry today) (filter (included today) rs))"
proof (induction rs arbitrary: acc)
  case Nil
  show ?case by simp
next
  case (Cons r rs)
  from Cons.prems have rest: "all_projectable today rs" by (simp add: all_projectable_def)
  note IH = Cons.IH[OF rest]
  show ?case
  proof (cases "birthday r")
    case None
    then show ?thesis by (simp add: IH included_def)
  next
    case (Some b)
    with Cons.prems have pr: "projectable today (bdate b)" by (simp add: all_projectable_def)
    then have v: "valid_date (spec_this_year today (bdate b))" by (simp add: projectable_def)
    show ?thesis
      using Some
      by (simp add: IH included_def birthday_this_year_projectable[OF pr]
          congratulation_total[OF v] spec_days_until_def date_sub_def spec_entry_def spec_congratulation_def Let_def)
  qed
qed

lemma upcoming_loop_feb29:
  assumes "MINYEAR \<le> year today" "year today \<le> MAXYEAR" "\<not> is_leap (year today)"
    and "r \<in> set rs" "birthday r = Some b" "month (bdate b) = 2" "day (bdate b) = 29"
  shows "\<exists>e. upcoming_loop today rs acc = Inl e"
  using assms(4)
proof (induction rs arbitrary: acc)
  case Nil
  then show ?case by simp
next
  case (Cons x xs)
  have f: "birthday_this_year today (bdate b) = Inl (ValueError DayRange)"
    using feb29_replace_fails[OF assms(1,2,3,6,7)] by (simp add: birthday_this_year_def)
  show ?case
  proof (cases "x = r")
    case True
    with assms(5) f show ?thesis by simp
  next
    case False
    with Cons.prems have "r \<in> set xs" by simp
    from Cons.IH[OF this] show ?thesis
      by (simp add: Let_def split: option.splits sum.splits)
  qed
qed

lemmas date_eval = get_upcoming_birthdays_def birthday_this_year_def replace_year_def
  date_new_def MINYEAR_def MAXYEAR_def days_in_month_def is_leap_def DAYS_IN_MONTH_def
  valid_date_def

text \<open>
  C2 does not hold of the code.  With a record whose birthday is 29 February in the book
  and a reference date in a year that is not a leap year, carrying the birthday to the
  reference year raises the constructor's \<open>ValueError\<close> ("day is out of range for
  month"), and \<open>get_upcoming_birthdays\<close> ends with an exception instead of a list.
\<close>

theorem feb29_birthday_raises:
  assumes "valid_date today" and "\<not> is_leap (year today)"
    and "r \<in> set (map snd book)" and "birthday r = Some b"
    and "month (bdate b) = 2" and "day (bdate b) = 29"
  shows "replace_year (bdate b) (year today) = Inl (ValueError DayRange) \<and>
         (\<exists>e. get_upcoming_birthdays today book = Inl e)"
proof -
  from assms(1) have y: "MINYEAR \<le> year today" "year today \<le> MAXYEAR"
    by (simp_all add: valid_date_def)
  from feb29_replace_fails[OF y assms(2,5,6)]
    upcoming_loop_feb29[OF y assms(2) assms(3,4,5,6), of "[]"]
  show ?thesis by (simp add: get_upcoming_birthdays_def)
qed

theorem feb29_birthday_raises_witness:
  "valid_date \<lparr>year = 2023, month = 3, day = 1\<rparr> \<and>
   \<not> is_leap (year \<lparr>year = 2023, month = 3, day = 1\<rparr>) \<and>
   Birthday_init (ascii ''29.02.2000'') =
     Inr \<lparr>btext = ascii ''29.02.2000'', bdate = \<lparr>year = 2000, month = 2, day = 29\<rparr>\<rparr> \<and>
   replace_year \<lparr>year = 2000, month = 2, day = 29\<rparr> 2023 = Inl (ValueError DayRange) \<and>
   get_upcoming_birthdays \<lparr>year = 2023, month = 3, day = 1\<rparr>
     [(ascii ''Leap'',
       \<lparr>name = ascii ''Leap'', phones = [],
        birthday = Some \<lparr>btext = ascii ''29.02.2000'',
                         bdate = \<lparr>year = 2000, month = 2, day = 29\<rparr>\<rparr>\<rparr>)] =
     Inl (ValueError DayRange)"
proof -
  let ?today = "\<lparr>year = 2023, month = 3, day = 1\<rparr>"
  let ?b = "\<lparr>btext = ascii ''29.02.2000'', bdate = \<lparr>year = 2000, month = 2, day = 29\<rparr>\<rparr>"
  let ?r = "\<lparr>name = ascii ''Leap'', phones = [], birthday = Some ?b\<rparr>"
  have h1: "valid_date ?today" by (simp add: date_eval)
  have h2: "\<not> is_leap (year ?today)" by (simp add: is_leap_def)
  have h3: "?r \<in> set (map snd [(ascii ''Leap'', ?r)])" by simp
  have h4: "birthday ?r = Some ?b" by simp
  have h5: "month (bdate ?b) = 2" by simp
  have h6: "day (bdate ?b) = 29" by simp
  have p: "Birthday_init (ascii ''29.02.2000'') = Inr ?b"
    by (simp add: Birthday_init_def strptime_dmY_def format_regex_match_def re_d_def re_m_def
        re_Y_def re_dot_def take1_def take2_def between_def isdecimal_ch_def in_ranges_def
        decimal_ranges_def ascii_def py_int_def strip_def isspace_ch_def space_ranges_def
        digit_value_def date_eval)
  have g: "get_upcoming_birthdays ?today [(ascii ''Leap'', ?r)] = Inl (ValueError DayRange)"
    by (simp add: date_eval)
  from feb29_birthday_raises[OF h1 h2 h3 h4 h5 h6] h1 h2 p g show ?thesis by simp
qed

lemmas ord_eval = toordinal_def ymd2ord_def days_before_year_def days_before_month_def
  DAYS_BEFORE_MONTH_def is_leap_def Let_def

lemmas window_eval = included_def spec_days_until_def spec_this_year_def on_year_def
  date_less_def all_projectable_def projectable_def

text \<open>
  Where every stored birthday can be carried to the years the algorithm names (each of
  those dates exists in the calendar), \<open>get_upcoming_birthdays\<close> returns, in the order
  of the book, the entries of exactly the records the specification includes: those with
  a birthday whose day this year, or next year if it is already past, is 0 to 7 days
  after the reference date.
\<close>

theorem upcoming_birthdays_window:
  assumes "all_projectable today (map snd book)"
  shows "get_upcoming_birthdays today book =
           Inr (map (spec_entry today) (filter (included today) (map snd book))) \<and>
         map ename (map (spec_entry today) (filter (included today) (map snd book))) =
           map name (filter (included today) (map snd book))"
proof -
  have "ename (spec_entry today r) = name r" for r
    by (simp add: spec_entry_def split: option.splits)
  then show ?thesis
    using upcoming_loop_projectable[OF assms, of "[]"]
    by (simp add: get_upcoming_birthdays_def comp_def)
qed

lemmas from_eval = fromordinal_def ord2ymd_def DI400Y_def DI100Y_def DI4Y_def
  DAYS_BEFORE_MONTH_def DAYS_IN_MONTH_def Let_def

lemmas fmt_eval = strftime_dmY_def pad2_def ascii_def decimal.simps

lemmas loop_eval = get_upcoming_birthdays_def birthday_this_year_def replace_year_def
  date_new_def MINYEAR_def MAXYEAR_def MAXORDINAL_def days_in_month_def date_less_def
  date_sub_def congratulation_def date_add_def weekday_def

lemma weekday_3_nov_2024: "weekday \<lparr>year = 2024, month = 11, day = 3\<rparr> = 6"
  by (simp add: weekday_def ord_eval)

lemma weekday_1_nov_2024: "weekday \<lparr>year = 2024, month = 11, day = 1\<rparr> = 4"
  by (simp add: weekday_def ord_eval)

lemma day_after_3_nov_2024: "fromordinal (toordinal \<lparr>year = 2024, month = 11, day = 3\<rparr> + 1) =
   \<lparr>year = 2024, month = 11, day = 4\<rparr>"
  by (simp add: ord_eval from_eval)

lemma strftime_4_nov_2024: "strftime_dmY \<lparr>year = 2024, month = 11, day = 4\<rparr> = ascii ''04.11.2024''"
  by (simp add: fmt_eval)

theorem upcoming_birthdays_window_example:
  "all_projectable \<lparr>year = 2024, month = 10, day = 28\<rparr>
     (map snd
       [(ascii ''John'',
         \<lparr>name = ascii ''John'', phones = [ascii ''1234567890''],
          birthday = Some \<lparr>btext = ascii ''01.11.1990'',
                           bdate = \<lparr>year = 1990, month = 11, day = 1\<rparr>\<rparr>\<rparr>),
        (ascii ''Ann'',
         \<lparr>name = ascii ''Ann'', phones = [],
          birthday = Some \<lparr>btext = ascii ''03.11.1990'',
                           bdate = \<lparr>year = 1990, month = 11, day = 3\<rparr>\<rparr>\<rparr>),
        (ascii ''Zed'',
         \<lparr>name = ascii ''Zed'', phones = [],
          birthday = Some \<lparr>btext = ascii ''15.01.1980'',
                           bdate = \<lparr>year = 1980, month = 1, day = 15\<rparr>\<rparr>\<rparr>),
        (ascii ''Nob'', \<lparr>name = ascii ''Nob'', phones = [], birthday = None\<rparr>)]) \<and>
   get_upcoming_birthdays \<lparr>year = 2024, month = 10, day = 28\<rparr>
       [(ascii ''John'',
         \<lparr>name = ascii ''John'', phones = [ascii ''1234567890''],
          birthday = Some \<lparr>btext = ascii ''01.11.1990'',
                           bdate = \<lparr>year = 1990, month = 11, day = 1\<rparr>\<rparr>\<rparr>),
        (ascii ''Ann'',
         \<lparr>name = ascii ''Ann'', phones = [],
          birthday = Some \<lparr>btext = ascii ''03.11.1990'',
                           bdate = \<lparr>year = 1990, month = 11, day = 3\<rparr>\<rparr>\<rparr>),
        (ascii ''Zed'',
         \<lparr>name = ascii ''Zed'', phones = [],
          birthday = Some \<lparr>btext = ascii ''15.01.1980'',
                           bdate = \<lparr>year = 1980, month = 1, day = 15\<rparr>\<rparr>\<rparr>),
        (ascii ''Nob'', \<lparr>name = ascii ''Nob'', phones = [], birthday = None\<rparr>)] =
     Inr [\<lparr>ename = ascii ''John'', congratulation_date = ascii ''01.11.2024''\<rparr>,
          \<lparr>ename = ascii ''Ann'', congratulation_date = ascii ''04.11.2024''\<rparr>]"
proof -
  let ?today = "\<lparr>year = 2024, month = 10, day = 28\<rparr>"
  let ?book = "[(ascii ''John'',
         \<lparr>name = ascii ''John'', phones = [ascii ''1234567890''],
          birthday = Some \<lparr>btext = ascii ''01.11.1990'',
                           bdate = \<lparr>year = 1990, month = 11, day = 1\<rparr>\<rparr>\<rparr>),
        (ascii ''Ann'',
         \<lparr>name = ascii ''Ann'', phones = [],
          birthday = Some \<lparr>btext = ascii ''03.11.1990'',
                           bdate = \<lparr>year = 1990, month = 11, day = 3\<rparr>\<rparr>\<rparr>),
        (ascii ''Zed'',
         \<lparr>name = ascii ''Zed'', phones = [],
          birthday = Some \<lparr>btext = ascii ''15.01.1980'',
                           bdate = \<lparr>year = 1980, month = 1, day = 15\<rparr>\<rparr>\<rparr>),
        (ascii ''Nob'', \<lparr>name = ascii ''Nob'', phones = [], birthday = None\<rparr>)]"
  have h: "all_projectable ?today (map snd ?book)"
    by (simp add: window_eval date_eval)
  have i: "filter (included ?today) (map snd ?book) =
     [\<lparr>name = ascii ''John'', phones = [ascii ''1234567890''],
          birthday = Some \<lparr>btext = ascii ''01.11.1990'',
                           bdate = \<lparr>year = 1990, month = 11, day = 1\<rparr>\<rparr>\<rparr>,
      \<lparr>name = ascii ''Ann'', phones = [],
          birthday = Some \<lparr>btext = ascii ''03.11.1990'',
                           bdate = \<lparr>year = 1990, month = 11, day = 3\<rparr>\<rparr>\<rparr>]"
    by (simp add: window_eval ord_eval)
  have t: "spec_this_year ?today \<lparr>year = 1990, month = 11, day = 1\<rparr> =
             \<lparr>year = 2024, month = 11, day = 1\<rparr>"
          "spec_this_year ?today \<lparr>year = 1990, month = 11, day = 3\<rparr> =
             \<lparr>year = 2024, month = 11, day = 3\<rparr>"
    by (simp_all add: window_eval)
  have s2: "strftime_dmY \<lparr>year = 2024, month = 11, day = 1\<rparr> = ascii ''01.11.2024''"
    by (simp add: fmt_eval)
  from upcoming_birthdays_window[OF h] h show ?thesis
    by (simp only: i) (simp add: spec_entry_def spec_congratulation_def t weekday_3_nov_2024 weekday_1_nov_2024 day_after_3_nov_2024 strftime_4_nov_2024 s2)
qed

text \<open>
  C3 does not hold of the code.  On 1 March 2023 the record "Ann" (born on 3 March, two
  days ahead) is one the specification includes, and alone in the book it is reported;
  with a record born on 29 February stored before it, the call raises the \<open>ValueError\<close>
  of the date constructor and reports no record at all.
\<close>

theorem upcoming_birthdays_window_fails:
  "included \<lparr>year = 2023, month = 3, day = 1\<rparr>
     \<lparr>name = ascii ''Ann'', phones = [],
      birthday = Some \<lparr>btext = ascii ''03.03.1990'',
                       bdate = \<lparr>year = 1990, month = 3, day = 3\<rparr>\<rparr>\<rparr> \<and>
   get_upcoming_birthdays \<lparr>year = 2023, month = 3, day = 1\<rparr>
     [(ascii ''Ann'',
       \<lparr>name = ascii ''Ann'', phones = [],
        birthday = Some \<lparr>btext = ascii ''03.03.1990'',
                         bdate = \<lparr>year = 1990, month = 3, day = 3\<rparr>\<rparr>\<rparr>)] =
     Inr [\<lparr>ename = ascii ''Ann'', congratulation_date = ascii ''03.03.2023''\<rparr>] \<and>
   get_upcoming_birthdays \<lparr>year = 2023, month = 3, day = 1\<rparr>
     [(ascii ''Leap'',
       \<lparr>name = ascii ''Leap'', phones = [],
        birthday = Some \<lparr>btext = ascii ''29.02.2000'',
                         bdate = \<lparr>year = 2000, month = 2, day = 29\<rparr>\<rparr>\<rparr>),
      (ascii ''Ann'',
       \<lparr>name = ascii ''Ann'', phones = [],
        birthday = Some \<lparr>btext = ascii ''03.03.1990'',
                         bdate = \<lparr>year = 1990, month = 3, day = 3\<rparr>\<rparr>\<rparr>)] =
     Inl (ValueError DayRange)"
proof -
  have a: "included \<lparr>year = 2023, month = 3, day = 1\<rparr>
     \<lparr>name = ascii ''Ann'', phones = [],
      birthday = Some \<lparr>btext = ascii ''03.03.1990'',
                       bdate = \<lparr>year = 1990, month = 3, day = 3\<rparr>\<rparr>\<rparr>"
    by (simp add: window_eval ord_eval)
  have b: "get_upcoming_birthdays \<lparr>year = 2023, month = 3, day = 1\<rparr>
     [(ascii ''Ann'',
       \<lparr>name = ascii ''Ann'', phones = [],
        birthday = Some \<lparr>btext = ascii ''03.03.1990'',
                         bdate = \<lparr>year = 1990, month = 3, day = 3\<rparr>\<rparr>\<rparr>)] =
     Inr [\<lparr>ename = ascii ''Ann'', congratulation_date = ascii ''03.03.2023''\<rparr>]"
    by (simp add: loop_eval ord_eval from_eval fmt_eval)
  have c: "get_upcoming_birthdays \<lparr>year = 2023, month = 3, day = 1\<rparr>
     [(ascii ''Leap'',
       \<lparr>name = ascii ''Leap'', phones = [],
        birthday = Some \<lparr>btext = ascii ''29.02.2000'',
                         bdate = \<lparr>year = 2000, month = 2, day = 29\<rparr>\<rparr>\<rparr>),
      (ascii ''Ann'',
       \<lparr>name = ascii ''Ann'', phones = [],
        birthday = Some \<lparr>btext = ascii ''03.03.1990'',
                         bdate = \<lparr>year = 1990, month = 3, day = 3\<rparr>\<rparr>\<rparr>)] =
     Inl (ValueError DayRange)"
    by (simp add: date_eval)
  from a b c show ?thesis by simp
qed

section \<open>Parsing a date\<close>

lemma set_take1:
  "(x, r) \<in> set (take1 p s) \<longleftrightarrow> (\<exists>a. x = [a] \<and> s = a # r \<and> p a)"
  by (auto simp: take1_def split: list.splits if_splits)

lemma set_take2:
  "(x, r) \<in> set (take2 p q s) \<longleftrightarrow> (\<exists>a b. x = [a, b] \<and> s = a # b # r \<and> p a \<and> q b)"
  by (auto simp: take2_def split: list.splits if_splits)

lemma between_eq: "between k k c \<longleftrightarrow> c = k"
  by (auto simp: between_def)

lemma set_re_d: "(d, r) \<in> set (re_d s) \<longleftrightarrow> s = d @ r \<and> day_text d"
proof
  assume "(d, r) \<in> set (re_d s)"
  then show "s = d @ r \<and> day_text d"
    by (auto simp: re_d_def set_take1 set_take2 day_text_def between_eq)
next
  assume h: "s = d @ r \<and> day_text d"
  then have "(\<exists>a. d = [a]) \<or> (\<exists>a b. d = [a, b])"
    by (auto simp: day_text_def split: list.splits)
  with h show "(d, r) \<in> set (re_d s)"
    by (auto simp: re_d_def set_take1 set_take2 day_text_def between_eq)
qed

lemma set_re_m: "(m, r) \<in> set (re_m s) \<longleftrightarrow> s = m @ r \<and> month_text m"
proof
  assume "(m, r) \<in> set (re_m s)"
  then show "s = m @ r \<and> month_text m"
    by (auto simp: re_m_def set_take1 set_take2 month_text_def between_eq)
next
  assume h: "s = m @ r \<and> month_text m"
  then have "(\<exists>a. m = [a]) \<or> (\<exists>a b. m = [a, b])"
    by (auto simp: month_text_def split: list.splits)
  with h show "(m, r) \<in> set (re_m s)"
    by (auto simp: re_m_def set_take1 set_take2 month_text_def between_eq)
qed

lemma length_4: "length y = 4 \<longleftrightarrow> (\<exists>a b c d. y = [a, b, c, d])"
  by (auto simp: length_Suc_conv numeral_eq_Suc)

lemma set_re_Y: "(y, r) \<in> set (re_Y s) \<longleftrightarrow> s = y @ r \<and> year_text y"
  by (auto simp: re_Y_def year_text_def length_4 split: list.splits if_splits)

lemma set_re_dot: "r \<in> set (re_dot s) \<longleftrightarrow> s = 46 # r"
  by (auto simp: re_dot_def split: list.splits if_splits)

lemma set_format_regex_match:
  "(d, m, y, rest) \<in> set (format_regex_match s) \<longleftrightarrow>
     s = d @ 46 # m @ 46 # y @ rest \<and> day_text d \<and> month_text m \<and> year_text y"
  by (auto simp: format_regex_match_def set_list_bind set_re_d set_re_m set_re_Y set_re_dot)

lemma not_decimal_dot: "\<not> isdecimal_ch 46"
  by (simp add: isdecimal_ch_def in_ranges_def decimal_ranges_def)

lemma day_text_no_dot: "day_text d \<Longrightarrow> 46 \<notin> set d"
  using not_decimal_dot by (auto simp: day_text_def between_def split: list.splits)

lemma month_text_no_dot: "month_text m \<Longrightarrow> 46 \<notin> set m"
  by (auto simp: month_text_def between_def split: list.splits)

lemma split_dot_append: "46 \<notin> set d \<Longrightarrow> split_dot (d @ 46 # r) = Some (d, r)"
  by (induction d) (auto simp: split_dot_def split: list.splits)

lemma split_dot_Some: "split_dot s = Some (d, r) \<Longrightarrow> s = d @ 46 # r"
proof -
  assume h: "split_dot s = Some (d, r)"
  then obtain c where c: "dropWhile (\<lambda>c. c \<noteq> 46) s = c # r"
    and d: "d = takeWhile (\<lambda>c. c \<noteq> 46) s"
    by (auto simp: split_dot_def split: list.splits)
  from c have ne: "dropWhile (\<lambda>c. c \<noteq> 46) s \<noteq> []" by simp
  from hd_dropWhile[OF ne] c have "c = 46" by simp
  moreover have "s = takeWhile (\<lambda>c. c \<noteq> 46) s @ dropWhile (\<lambda>c. c \<noteq> 46) s" by simp
  ultimately show ?thesis using c d by simp
qed

lemma split_dmY_append:
  "day_text d \<Longrightarrow> month_text m \<Longrightarrow> split_dmY (d @ 46 # m @ 46 # y) = Some (d, m, y)"
  by (simp add: split_dmY_def split_dot_append day_text_no_dot month_text_no_dot)

lemma split_dmY_Some: "split_dmY s = Some (d, m, y) \<Longrightarrow> s = d @ 46 # m @ 46 # y"
  by (auto simp: split_dmY_def split: option.splits dest!: split_dot_Some)

lemma format_regex_match_accepted:
  assumes "split_dmY s = Some (d, m, y)" "day_text d" "month_text m" "year_text y"
  shows "\<exists>xs. format_regex_match s = (d, m, y, []) # xs"
proof -
  have s: "s = d @ 46 # m @ 46 # y" by (rule split_dmY_Some[OF assms(1)])
  with assms have "(d, m, y, []) \<in> set (format_regex_match s)"
    by (simp add: set_format_regex_match)
  then obtain x xs where L: "format_regex_match s = x # xs"
    by (cases "format_regex_match s") auto
  obtain d' m' y' rest where x: "x = (d', m', y', rest)" by (cases x) auto
  with L have "(d', m', y', rest) \<in> set (format_regex_match s)" by simp
  then have e: "s = d' @ 46 # m' @ 46 # y' @ rest" and t: "day_text d'" "month_text m'"
    and yt: "year_text y'"
    by (simp_all add: set_format_regex_match)
  from split_dmY_append[OF t, of "y' @ rest"] e assms(1)
  have "d' = d" "m' = m" "y' @ rest = y" by simp_all
  moreover from this yt assms(4) have "rest = []" by (auto simp: year_text_def)
  ultimately show ?thesis using L x by simp
qed

lemma strptime_accepted:
  assumes "split_dmY s = Some (d, m, y)" "day_text d" "month_text m" "year_text y"
  shows "strptime_dmY s = date_new (py_int y) (py_int m) (py_int d)"
  using format_regex_match_accepted[OF assms] by (auto simp: strptime_dmY_def)

lemma strptime_Inr:
  assumes "strptime_dmY s = Inr dt"
  shows "\<exists>d m y. split_dmY s = Some (d, m, y) \<and> day_text d \<and> month_text m \<and> year_text y"
proof -
  from assms obtain d m y xs where L: "format_regex_match s = (d, m, y, []) # xs"
    by (auto simp: strptime_dmY_def split: list.splits if_splits)
  then have "(d, m, y, []) \<in> set (format_regex_match s)" by simp
  then have "s = d @ 46 # m @ 46 # y" "day_text d" "month_text m" "year_text y"
    by (simp_all add: set_format_regex_match)
  then show ?thesis using split_dmY_append[of d m y] by auto
qed

lemma date_new_invalid:
  "\<not> valid_date \<lparr>year = y, month = m, day = d\<rparr> \<Longrightarrow> \<exists>e. date_new y m d = Inl e"
  by (auto simp: date_new_def valid_date_def)

text \<open>
  C6, as the code has it.  \<open>Birthday\<close> accepts exactly the texts \<open>accepted_birthday\<close>
  describes: day, month and year between dots, where the day and the month may be a
  single digit (the day also a blank and a digit), the digits after a leading 1 or 2 of
  the day and those of the year may be any Unicode decimal digits, and the numbers are a
  date of the calendar in the years 1 to 9999.  It keeps the text and the date; every
  other text is refused with the \<open>ValueError\<close> of the date format.
\<close>

theorem Birthday_init_accepts:
  "Birthday_init s =
     (case accepted_birthday s of Some b \<Rightarrow> Inr b | None \<Rightarrow> Inl (ValueError DateFormat))"
proof (cases "\<exists>d m y. split_dmY s = Some (d, m, y) \<and> day_text d \<and> month_text m \<and> year_text y")
  case True
  then obtain d m y where h: "split_dmY s = Some (d, m, y)" "day_text d" "month_text m"
    "year_text y" by blast
  note p = strptime_accepted[OF h]
  show ?thesis
  proof (cases "valid_date \<lparr>year = py_int y, month = py_int m, day = py_int d\<rparr>")
    case True
    with h p show ?thesis
      by (simp add: Birthday_init_def accepted_birthday_def date_new_valid)
  next
    case False
    from date_new_invalid[OF False] obtain e where
      "date_new (py_int y) (py_int m) (py_int d) = Inl e" by blast
    with h p False show ?thesis
      by (simp add: Birthday_init_def accepted_birthday_def)
  qed
next
  case False
  then have "\<forall>dt. strptime_dmY s \<noteq> Inr dt" using strptime_Inr[of s] by blast
  then have "Birthday_init s = Inl (ValueError DateFormat)"
    by (auto simp: Birthday_init_def split: sum.splits)
  moreover from False have "accepted_birthday s = None"
    by (auto simp: accepted_birthday_def split: option.splits)
  ultimately show ?thesis by simp
qed

lemmas parse_eval = Birthday_init_def strptime_dmY_def format_regex_match_def re_d_def re_m_def
  re_Y_def re_dot_def take1_def take2_def between_def isdecimal_ch_def in_ranges_def
  decimal_ranges_def ascii_def py_int_def strip_def isspace_ch_def space_ranges_def
  digit_value_def date_eval

text \<open>
  C6 as stated fails: the text "1.1.2000", with a one-digit day and a one-digit month, is
  accepted as 1 January 2000.
\<close>

theorem Birthday_init_single_digits:
  "Birthday_init (ascii ''1.1.2000'') =
     Inr \<lparr>btext = ascii ''1.1.2000'', bdate = \<lparr>year = 2000, month = 1, day = 1\<rparr>\<rparr> \<and>
   \<not> dd_mm_yyyy (ascii ''1.1.2000'')"
  by (simp add: parse_eval dd_mm_yyyy_def)

lemma Birthday_init_01_11_1990: "Birthday_init (ascii ''01.11.1990'') =
     Inr \<lparr>btext = ascii ''01.11.1990'', bdate = \<lparr>year = 1990, month = 11, day = 1\<rparr>\<rparr>"
  by (simp add: parse_eval)

lemma Birthday_init_32_13_2000: "Birthday_init (ascii ''32.13.2000'') = Inl (ValueError DateFormat)"
  by (simp add: parse_eval)

lemma Birthday_init_29_02_2001: "Birthday_init (ascii ''29.02.2001'') = Inl (ValueError DateFormat)"
  by (simp add: parse_eval)

lemma Birthday_init_30_02_2000: "Birthday_init (ascii ''30.02.2000'') = Inl (ValueError DateFormat)"
  by (simp add: parse_eval)

lemma Birthday_init_arabic_digit: "Birthday_init [49, 1635, 46, 48, 49, 46, 50, 48, 48, 48] =
     Inr \<lparr>btext = [49, 1635, 46, 48, 49, 46, 50, 48, 48, 48],
          bdate = \<lparr>year = 2000, month = 1, day = 13\<rparr>\<rparr>"
  by (simp add: parse_eval)

theorem Birthday_init_accepts_witness:
  "Birthday_init (ascii ''01.11.1990'') =
     Inr \<lparr>btext = ascii ''01.11.1990'', bdate = \<lparr>year = 1990, month = 11, day = 1\<rparr>\<rparr> \<and>
   accepted_birthday (ascii ''01.11.1990'') =
     Some \<lparr>btext = ascii ''01.11.1990'', bdate = \<lparr>year = 1990, month = 11, day = 1\<rparr>\<rparr> \<and>
   Birthday_init (ascii ''32.13.2000'') = Inl (ValueError DateFormat) \<and>
   accepted_birthday (ascii ''32.13.2000'') = None \<and>
   Birthday_init (ascii ''29.02.2001'') = Inl (ValueError DateFormat) \<and>
   accepted_birthday (ascii ''29.02.2001'') = None"
  using Birthday_init_accepts[of "ascii ''01.11.1990''"]
    Birthday_init_accepts[of "ascii ''32.13.2000''"]
    Birthday_init_accepts[of "ascii ''29.02.2001''"]
    Birthday_init_01_11_1990 Birthday_init_32_13_2000 Birthday_init_29_02_2001
  by (simp split: option.splits)

section \<open>From the day number back to the date\<close>

lemma div_mod_facts:
  fixes x c :: int
  assumes "0 < c"
  shows "x = c * (x div c) + x mod c" and "0 \<le> x mod c" and "x mod c < c"
  using assms by simp_all

lemma days_before_year_decomp:
  assumes "0 \<le> a" "a \<le> 3" "0 \<le> b" "b \<le> 24" "0 \<le> c" "c \<le> 3"
  shows "days_before_year (400 * q + 100 * a + 4 * b + c + 1) =
         146097 * q + 36524 * a + 1461 * b + 365 * c"
proof -
  define z where "z = 400 * q + 100 * a + 4 * b + c"
  have d4: "z div 4 = 100 * q + 25 * a + b"
    by (rule int_div_pos_eq[where r = c]) (use assms in \<open>simp_all add: z_def\<close>)
  have d100: "z div 100 = 4 * q + a"
    by (rule int_div_pos_eq[where r = "4 * b + c"]) (use assms in \<open>simp_all add: z_def\<close>)
  have d400: "z div 400 = q"
    by (rule int_div_pos_eq[where r = "100 * a + 4 * b + c"])
       (use assms in \<open>simp_all add: z_def\<close>)
  have "days_before_year (z + 1) = z * 365 + z div 4 - z div 100 + z div 400"
    unfolding days_before_year_def Let_def by (simp only: add_diff_cancel_right')
  also have "\<dots> = z * 365 + (100 * q + 25 * a + b) - (4 * q + a) + q"
    by (simp only: d4 d100 d400)
  also have "\<dots> = 146097 * q + 36524 * a + 1461 * b + 365 * c"
    by (simp add: z_def)
  finally show ?thesis by (simp only: z_def)
qed

lemma is_leap_decomp:
  assumes "0 \<le> a" "a \<le> 3" "0 \<le> b" "b \<le> 24" "0 \<le> c" "c \<le> 3"
  shows "is_leap (400 * q + 100 * a + 4 * b + c + 1) \<longleftrightarrow> (c = 3 \<and> (b \<noteq> 24 \<or> a = 3))"
proof -
  define Y where "Y = 400 * q + 100 * a + 4 * b + c + 1"
  have m4: "Y mod 4 = (if c = 3 then 0 else c + 1)"
  proof (cases "c = 3")
    case True
    have "Y mod 4 = 0"
      by (rule int_mod_pos_eq[where q = "100 * q + 25 * a + b + 1"])
         (use True in \<open>simp_all add: Y_def\<close>)
    with True show ?thesis by simp
  next
    case False
    have "Y mod 4 = c + 1"
      by (rule int_mod_pos_eq[where q = "100 * q + 25 * a + b"])
         (use False assms in \<open>simp_all add: Y_def\<close>)
    with False show ?thesis by simp
  qed
  have m100: "Y mod 100 = (if b = 24 \<and> c = 3 then 0 else 4 * b + c + 1)"
  proof (cases "b = 24 \<and> c = 3")
    case True
    have "Y mod 100 = 0"
      by (rule int_mod_pos_eq[where q = "4 * q + a + 1"])
         (use True in \<open>simp_all add: Y_def\<close>)
    with True show ?thesis by simp
  next
    case False
    have "Y mod 100 = 4 * b + c + 1"
      by (rule int_mod_pos_eq[where q = "4 * q + a"])
         (use False assms in \<open>auto simp: Y_def\<close>)
    with False show ?thesis by simp
  qed
  have m400: "Y mod 400 = (if a = 3 \<and> b = 24 \<and> c = 3 then 0 else 100 * a + 4 * b + c + 1)"
  proof (cases "a = 3 \<and> b = 24 \<and> c = 3")
    case True
    have "Y mod 400 = 0"
      by (rule int_mod_pos_eq[where q = "q + 1"])
         (use True in \<open>simp_all add: Y_def\<close>)
    with True show ?thesis by simp
  next
    case False
    have "Y mod 400 = 100 * a + 4 * b + c + 1"
      by (rule int_mod_pos_eq[where q = q])
         (use False assms in \<open>auto simp: Y_def\<close>)
    with False show ?thesis by simp
  qed
  have "is_leap Y \<longleftrightarrow> (c = 3 \<and> (b \<noteq> 24 \<or> a = 3))"
    unfolding is_leap_def
    apply (simp only: m4 m100 m400)
    using assms apply auto
    done
  then show ?thesis by (simp only: Y_def)
qed

lemma month_day_core:
  fixes r m0 :: int and L :: bool
  assumes "0 \<le> r" "r < 365" "32 * m0 \<le> r + 50" "r + 50 < 32 * m0 + 32"
  defines "p0 \<equiv> DAYS_BEFORE_MONTH ! nat m0 + (if m0 > 2 \<and> L then 1 else 0)"
  defines "m \<equiv> (if p0 > r then m0 - 1 else m0)"
  defines "p \<equiv> (if p0 > r
                  then p0 - (DAYS_IN_MONTH ! nat (m0 - 1) + (if m0 - 1 = 2 \<and> L then 1 else 0))
                  else p0)"
  shows "1 \<le> m \<and> m \<le> 12 \<and> 1 \<le> r - p + 1 \<and>
         r - p + 1 \<le> (if m = 2 \<and> L then 29 else DAYS_IN_MONTH ! nat m) \<and>
         DAYS_BEFORE_MONTH ! nat m + (if m > 2 \<and> L then 1 else 0) + (r - p + 1) = r + 1"
proof -
  from assms(1-4) have "1 \<le> m0" "m0 \<le> 12" by linarith+
  from month_cases[OF this] show ?thesis
  proof (elim disjE)
    assume "m0 = 1" with assms(1-4) show ?thesis
      by (cases L) (simp_all add: p0_def m_def p_def DAYS_BEFORE_MONTH_def DAYS_IN_MONTH_def)
  next
    assume "m0 = 2" with assms(1-4) show ?thesis
      by (cases L) (simp_all add: p0_def m_def p_def DAYS_BEFORE_MONTH_def DAYS_IN_MONTH_def)
  next
    assume "m0 = 3" with assms(1-4) show ?thesis
      by (cases L) (simp_all add: p0_def m_def p_def DAYS_BEFORE_MONTH_def DAYS_IN_MONTH_def)
  next
    assume "m0 = 4" with assms(1-4) show ?thesis
      by (cases L) (simp_all add: p0_def m_def p_def DAYS_BEFORE_MONTH_def DAYS_IN_MONTH_def)
  next
    assume "m0 = 5" with assms(1-4) show ?thesis
      by (cases L) (simp_all add: p0_def m_def p_def DAYS_BEFORE_MONTH_def DAYS_IN_MONTH_def)
  next
    assume "m0 = 6" with assms(1-4) show ?thesis
      by (cases L) (simp_all add: p0_def m_def p_def DAYS_BEFORE_MONTH_def DAYS_IN_MONTH_def)
  next
    assume "m0 = 7" with assms(1-4) show ?thesis
      by (cases L) (simp_all add: p0_def m_def p_def DAYS_BEFORE_MONTH_def DAYS_IN_MONTH_def)
  next
    assume "m0 = 8" with assms(1-4) show ?thesis
      by (cases L) (simp_all add: p0_def m_def p_def DAYS_BEFORE_MONTH_def DAYS_IN_MONTH_def)
  next
    assume "m0 = 9" with assms(1-4) show ?thesis
      by (cases L) (simp_all add: p0_def m_def p_def DAYS_BEFORE_MONTH_def DAYS_IN_MONTH_def)
  next
    assume "m0 = 10" with assms(1-4) show ?thesis
      by (cases L) (simp_all add: p0_def m_def p_def DAYS_BEFORE_MONTH_def DAYS_IN_MONTH_def)
  next
    assume "m0 = 11" with assms(1-4) show ?thesis
      by (cases L) (simp_all add: p0_def m_def p_def DAYS_BEFORE_MONTH_def DAYS_IN_MONTH_def)
  next
    assume "m0 = 12" with assms(1-4) show ?thesis
      by (cases L) (simp_all add: p0_def m_def p_def DAYS_BEFORE_MONTH_def DAYS_IN_MONTH_def)
  qed
qed

lemma year_below_10000:
  assumes "days_before_year y < 3652059"
  shows "y < 10000"
proof (rule ccontr)
  assume "\<not> y < 10000"
  then have "10000 \<le> y" by simp
  from days_before_year_mono[OF this] assms show False
    by (simp add: days_before_year_10000)
qed

lemma ord2ymd_correct:
  assumes "1 \<le> n" "n \<le> MAXORDINAL"
  shows "\<exists>y m d. ord2ymd n = (y, m, d) \<and> 1 \<le> y \<and> y \<le> 9999 \<and> 1 \<le> m \<and> m \<le> 12 \<and>
           1 \<le> d \<and> d \<le> days_in_month y m \<and> ymd2ord y m d = n"
proof -
  define x where "x = n - 1"
  define q where "q = x div 146097"
  define r400 where "r400 = x mod 146097"
  define a where "a = r400 div 36524"
  define r100 where "r100 = r400 mod 36524"
  define b where "b = r100 div 1461"
  define r4 where "r4 = r100 mod 1461"
  define c where "c = r4 div 365"
  define r where "r = r4 mod 365"
  define m0 where "m0 = (r + 50) div 32"
  have x: "x = 146097 * q + r400" "0 \<le> r400" "r400 < 146097"
    unfolding q_def r400_def by (rule div_mod_facts, simp)+
  have e400: "r400 = 36524 * a + r100" "0 \<le> r100" "r100 < 36524"
    unfolding a_def r100_def by (rule div_mod_facts, simp)+
  have e100: "r100 = 1461 * b + r4" "0 \<le> r4" "r4 < 1461"
    unfolding b_def r4_def by (rule div_mod_facts, simp)+
  have e4: "r4 = 365 * c + r" "0 \<le> r" "r < 365"
    unfolding c_def r_def by (rule div_mod_facts, simp)+
  have em: "r + 50 = 32 * m0 + (r + 50) mod 32" "0 \<le> (r + 50) mod 32" "(r + 50) mod 32 < 32"
    unfolding m0_def by (rule div_mod_facts, simp)+
  then have m0: "32 * m0 \<le> r + 50" "r + 50 < 32 * m0 + 32" by linarith+
  from assms have x0: "0 \<le> x" "x < 3652059" by (simp_all add: x_def MAXORDINAL_def)
  have q0: "0 \<le> q" using x x0 by linarith
  have a0: "0 \<le> a" "a \<le> 4" using e400 x by linarith+
  have b0: "0 \<le> b" "b \<le> 24" using e100 e400 by linarith+
  have c0: "0 \<le> c" "c \<le> 4" using e4 e100 by linarith+
  have n: "n = 1 + 146097 * q + 36524 * a + 1461 * b + 365 * c + r"
    using x e400 e100 e4 by (simp add: x_def)
  define L where "L \<longleftrightarrow> c = 3 \<and> (b \<noteq> 24 \<or> a = 3)"
  define p0 where "p0 = DAYS_BEFORE_MONTH ! nat m0 + (if m0 > 2 \<and> L then 1 else 0)"
  define m where "m = (if p0 > r then m0 - 1 else m0)"
  define p where "p = (if p0 > r
      then p0 - (DAYS_IN_MONTH ! nat (m0 - 1) + (if m0 - 1 = 2 \<and> L then 1 else 0)) else p0)"
  have raw: "ord2ymd n =
      (if c = 4 \<or> a = 4 then (q * 400 + 1 + (a * 100 + b * 4 + c) - 1, 12, 31)
       else if p0 > r
         then (q * 400 + 1 + (a * 100 + b * 4 + c), m0 - 1,
               r - (p0 - (DAYS_IN_MONTH ! nat (m0 - 1) +
                 (if m0 - 1 = 2 \<and> L then 1 else 0))) + 1)
         else (q * 400 + 1 + (a * 100 + b * 4 + c), m0, r - p0 + 1))"
    unfolding ord2ymd_def Let_def DI400Y_def DI100Y_def DI4Y_def p0_def L_def
      m0_def r_def c_def r4_def b_def r100_def a_def r400_def q_def x_def
    by (rule refl)
  have unfold: "ord2ymd n =
      (if c = 4 \<or> a = 4 then (q * 400 + 1 + (a * 100 + b * 4 + c) - 1, 12, 31)
       else (q * 400 + 1 + (a * 100 + b * 4 + c), m, r - p + 1))"
  proof (cases "p0 > r")
    case True
    then show ?thesis by (simp only: raw m_def p_def if_True)
  next
    case False
    then show ?thesis by (simp only: raw m_def p_def if_False)
  qed
  show ?thesis
  proof (cases "c = 4 \<or> a = 4")
    case True
    define b' where "b' = (if a = 4 then 24 else b)"
    define a' where "a' = (if a = 4 then 3 else a)"
    have z: "a = 4 \<Longrightarrow> b = 0 \<and> c = 0 \<and> r = 0" using e400 e100 e4 x b0 c0 by linarith
    have z4: "c = 4 \<Longrightarrow> r = 0 \<and> b \<le> 23" using e4 e100 e400 by linarith
    have rng: "0 \<le> a'" "a' \<le> 3" "0 \<le> b'" "b' \<le> 24"
      using a0 b0 by (auto simp: a'_def b'_def)
    have Y: "q * 400 + 1 + (a * 100 + b * 4 + c) - 1 = 400 * q + 100 * a' + 4 * b' + 3 + 1"
      using True z by (auto simp: a'_def b'_def)
    have dby: "days_before_year (400 * q + 100 * a' + 4 * b' + 3 + 1) =
        146097 * q + 36524 * a' + 1461 * b' + 365 * 3"
      by (rule days_before_year_decomp) (use rng in simp_all)
    have leap: "is_leap (400 * q + 100 * a' + 4 * b' + 3 + 1)"
      using is_leap_decomp[of a' b' 3 q] rng True z z4 by (auto simp: a'_def b'_def)
    have nn: "n = 146097 * q + 36524 * a' + 1461 * b' + 365 * 3 + 366"
      using n True z z4 by (auto simp: a'_def b'_def)
    have yb: "400 * q + 100 * a' + 4 * b' + 3 + 1 < 10000"
      by (rule year_below_10000) (use dby nn assms(2) in \<open>simp add: MAXORDINAL_def\<close>)
    have "ymd2ord (400 * q + 100 * a' + 4 * b' + 3 + 1) 12 31 = n"
      unfolding ymd2ord_def days_before_month_def
      by (simp only: dby leap nn) (simp add: DAYS_BEFORE_MONTH_def)
    moreover have "days_in_month (400 * q + 100 * a' + 4 * b' + 3 + 1) 12 = 31"
      by (simp add: days_in_month_def DAYS_IN_MONTH_def)
    moreover have "1 \<le> 400 * q + 100 * a' + 4 * b' + 3 + 1" using q0 rng by linarith
    ultimately show ?thesis
      using True yb by (simp only: unfold Y if_True) simp
  next
    case False
    with a0 c0 have rng: "0 \<le> a" "a \<le> 3" "0 \<le> b" "b \<le> 24" "0 \<le> c" "c \<le> 3"
      using b0 by auto
    define Y where "Y = 400 * q + 100 * a + 4 * b + c + 1"
    have Ye: "q * 400 + 1 + (a * 100 + b * 4 + c) = Y" by (simp add: Y_def)
    have dby: "days_before_year Y = 146097 * q + 36524 * a + 1461 * b + 365 * c"
      unfolding Y_def by (rule days_before_year_decomp[OF rng])
    have leap: "is_leap Y \<longleftrightarrow> L"
      unfolding Y_def L_def by (rule is_leap_decomp[OF rng])
    have yb: "Y < 10000"
      by (rule year_below_10000) (use dby n e4 assms(2) in \<open>simp add: MAXORDINAL_def\<close>)
    have y1: "1 \<le> Y" using q0 rng by (simp add: Y_def)
    note md = month_day_core[OF e4(2,3) m0, of L, folded p0_def, folded m_def p_def]
    have "ymd2ord Y m (r - p + 1) = n"
      unfolding ymd2ord_def days_before_month_def using md n
      by (simp add: dby leap)
    moreover have "r - p + 1 \<le> days_in_month Y m"
      unfolding days_in_month_def using md by (simp add: leap)
    ultimately show ?thesis
      using False md yb y1 by (simp only: unfold Ye if_False) simp
  qed
qed

lemma fromordinal_correct:
  assumes "1 \<le> n" "n \<le> MAXORDINAL"
  shows "valid_date (fromordinal n)" and "toordinal (fromordinal n) = n"
proof -
  from ord2ymd_correct[OF assms] obtain y m d where
    h: "ord2ymd n = (y, m, d)" "1 \<le> y" "y \<le> 9999" "1 \<le> m" "m \<le> 12" "1 \<le> d"
       "d \<le> days_in_month y m" "ymd2ord y m d = n"
    by blast
  then show "valid_date (fromordinal n)"
    by (simp add: fromordinal_def valid_date_def MINYEAR_def MAXYEAR_def)
  from h show "toordinal (fromordinal n) = n"
    by (simp add: fromordinal_def toordinal_def)
qed

lemma toordinal_year_bounds:
  assumes "valid_date dt"
  shows "days_before_year (year dt) < toordinal dt"
    and "toordinal dt \<le> days_before_year (year dt + 1)"
proof -
  from assms have m: "1 \<le> month dt" "month dt \<le> 12"
    and d: "1 \<le> day dt" "day dt \<le> days_in_month (year dt) (month dt)"
    by (simp_all add: valid_date_def)
  note w = month_within_year[OF m d]
  from w(1) show "days_before_year (year dt) < toordinal dt"
    by (simp add: toordinal_def ymd2ord_def)
  from w(2) show "toordinal dt \<le> days_before_year (year dt + 1)"
    by (simp add: toordinal_def ymd2ord_def days_before_year_step split: if_splits)
qed

lemma year_mono:
  assumes "valid_date a" "valid_date b" "toordinal a \<le> toordinal b"
  shows "year a \<le> year b"
proof (rule ccontr)
  assume "\<not> year a \<le> year b"
  then have "year b + 1 \<le> year a" by simp
  from days_before_year_mono[OF this] toordinal_year_bounds(2)[OF assms(2)]
    toordinal_year_bounds(1)[OF assms(1)] assms(3)
  show False by linarith
qed

lemma weekday_after_saturday:
  "weekday a = 5 \<Longrightarrow> toordinal b = toordinal a + 2 \<Longrightarrow> weekday b = 0"
  unfolding weekday_def by presburger

lemma weekday_after_sunday:
  "weekday a = 6 \<Longrightarrow> toordinal b = toordinal a + 1 \<Longrightarrow> weekday b = 0"
  unfolding weekday_def by presburger

lemma decimal_four_digits:
  assumes "1000 \<le> n" "n < 10000"
  shows "decimal n = [48 + n div 1000, 48 + n div 100 mod 10, 48 + n div 10 mod 10, 48 + n mod 10]"
proof -
  define n1 where "n1 = n div 10"
  define n2 where "n2 = n1 div 10"
  define n3 where "n3 = n2 div 10"
  have b1: "100 \<le> n1" "n1 < 1000" using assms unfolding n1_def by linarith+
  have b2: "10 \<le> n2" "n2 < 100" using b1 unfolding n2_def by linarith+
  have b3: "1 \<le> n3" "n3 < 10" using b2 unfolding n3_def by linarith+
  have e2: "n div 100 = n2" unfolding n2_def n1_def by (simp add: div_mult2_eq)
  have e3: "n div 1000 = n3" unfolding n3_def n2_def n1_def by (simp add: div_mult2_eq)
  have "decimal n = decimal n1 @ [48 + n mod 10]"
    using assms by (subst decimal.simps) (simp add: n1_def)
  also have "decimal n1 = decimal n2 @ [48 + n1 mod 10]"
    using b1 by (subst decimal.simps) (simp add: n2_def)
  also have "decimal n2 = decimal n3 @ [48 + n2 mod 10]"
    using b2 by (subst decimal.simps) (simp add: n3_def)
  also have "decimal n3 = [48 + n3]"
    using b3 by (subst decimal.simps) simp
  finally show ?thesis by (simp add: e2 e3 n1_def)
qed

section \<open>The congratulation date\<close>

lemma upcoming_loop_Inr_projectable:
  "upcoming_loop today rs acc = Inr out \<Longrightarrow> all_projectable today rs"
proof (induction rs arbitrary: acc)
  case Nil
  show ?case by (simp add: all_projectable_def)
next
  case (Cons r rs)
  show ?case
  proof (cases "birthday r")
    case None
    with Cons.prems have "upcoming_loop today rs acc = Inr out" by simp
    from Cons.IH[OF this] None show ?thesis by (simp add: all_projectable_def)
  next
    case (Some b)
    with Cons.prems obtain ty where ty: "birthday_this_year today (bdate b) = Inr ty"
      by (auto split: sum.splits)
    with Cons.prems Some obtain acc' where "upcoming_loop today rs acc' = Inr out"
      by (auto simp: Let_def split: sum.splits if_splits)
    from Cons.IH[OF this] birthday_this_year_Inr[OF ty] Some show ?thesis
      by (simp add: all_projectable_def)
  qed
qed

lemma spec_congratulation_correct:
  assumes "valid_date ty"
  shows "valid_date (spec_congratulation ty)"
    and "weekday ty < 5 \<Longrightarrow> spec_congratulation ty = ty"
    and "weekday ty = 5 \<Longrightarrow> toordinal (spec_congratulation ty) = toordinal ty + 2"
    and "weekday ty = 6 \<Longrightarrow> toordinal (spec_congratulation ty) = toordinal ty + 1"
    and "toordinal ty \<le> toordinal (spec_congratulation ty)"
proof -
  note b = toordinal_bounds[OF assms]
  have s: "weekday ty = 5 \<Longrightarrow> toordinal ty + 2 \<le> MAXORDINAL"
    using b unfolding weekday_def MAXORDINAL_def by presburger
  have u: "weekday ty = 6 \<Longrightarrow> toordinal ty + 1 \<le> MAXORDINAL"
    using b unfolding weekday_def MAXORDINAL_def by presburger
  show "weekday ty < 5 \<Longrightarrow> spec_congratulation ty = ty"
    by (simp add: spec_congratulation_def)
  show c5: "weekday ty = 5 \<Longrightarrow> toordinal (spec_congratulation ty) = toordinal ty + 2"
    using fromordinal_correct(2)[of "toordinal ty + 2"] s b
    by (simp add: spec_congratulation_def)
  show c6: "weekday ty = 6 \<Longrightarrow> toordinal (spec_congratulation ty) = toordinal ty + 1"
    using fromordinal_correct(2)[of "toordinal ty + 1"] u b
    by (simp add: spec_congratulation_def)
  show "valid_date (spec_congratulation ty)"
    using fromordinal_correct(1)[of "toordinal ty + 2"]
      fromordinal_correct(1)[of "toordinal ty + 1"] s u b assms
    by (simp add: spec_congratulation_def)
  show "toordinal ty \<le> toordinal (spec_congratulation ty)"
    using c5 c6 by (cases "weekday ty = 5"; cases "weekday ty = 6")
      (simp_all add: spec_congratulation_def)
qed

lemma strftime_dmY_text:
  assumes "valid_date dt" "1000 \<le> year dt"
  shows "strftime_dmY dt = text_dd_mm_yyyy dt"
proof -
  define n where "n = nat (year dt)"
  from assms have y: "0 \<le> year dt" "year dt \<le> 9999"
    by (simp_all add: valid_date_def MAXYEAR_def)
  with assms(2) have n: "1000 \<le> n" "n < 10000" by (simp_all add: n_def)
  have "nat (year dt div 1000) = n div 1000" "nat (year dt div 100 mod 10) = n div 100 mod 10"
    "nat (year dt div 10 mod 10) = n div 10 mod 10" "nat (year dt mod 10) = n mod 10"
    using y(1) by (simp_all add: n_def nat_div_distrib nat_mod_distrib)
  then show ?thesis
    by (simp add: strftime_dmY_def pad2_def text_dd_mm_yyyy_def decimal_four_digits[OF n]
        n_def[symmetric])
qed

lemma spec_this_year_year: "year today \<le> year (spec_this_year today bd)"
  by (simp add: spec_this_year_def on_year_def)

text \<open>
  C4.  Every entry that \<open>get_upcoming_birthdays\<close> returns belongs to an included
  record of the book and carries its name.  With the birthday's day this year (or next)
  a valid date, the date congratulated is that day when it falls on Monday to Friday, the
  day two days later when it falls on a Saturday, and the day after when it falls on a
  Sunday, which in both cases is a Monday; and the entry holds that date as the ten
  characters DD.MM.YYYY.  The reference date is the date of the clock; from the year 1000
  on the year is printed with four digits.
\<close>

theorem congratulation_date_reported:
  assumes "get_upcoming_birthdays today book = Inr out" and "e \<in> set out"
    and "1000 \<le> year today"
  shows "\<exists>r b. r \<in> set (map snd book) \<and> birthday r = Some b \<and> included today r \<and>
           ename e = name r \<and>
           (let ty = spec_this_year today (bdate b); cd = spec_congratulation ty
            in valid_date ty \<and> valid_date cd \<and>
               (weekday ty < 5 \<longrightarrow> cd = ty) \<and>
               (weekday ty = 5 \<longrightarrow> toordinal cd = toordinal ty + 2 \<and> weekday cd = 0) \<and>
               (weekday ty = 6 \<longrightarrow> toordinal cd = toordinal ty + 1 \<and> weekday cd = 0) \<and>
               congratulation_date e = text_dd_mm_yyyy cd)"
proof -
  from assms(1) have ap: "all_projectable today (map snd book)"
    by (auto simp: get_upcoming_birthdays_def dest: upcoming_loop_Inr_projectable)
  from upcoming_loop_projectable[OF ap, of "[]"] assms(1)
  have "out = map (spec_entry today) (filter (included today) (map snd book))"
    by (simp add: get_upcoming_birthdays_def)
  with assms(2) obtain r where r: "r \<in> set (map snd book)" "included today r"
    "e = spec_entry today r" by auto
  from r(2) obtain b where b: "birthday r = Some b"
    by (auto simp: included_def split: option.splits)
  define ty where "ty = spec_this_year today (bdate b)"
  define cd where "cd = spec_congratulation ty"
  from ap r(1) b have "projectable today (bdate b)"
    by (auto simp: all_projectable_def list_all_iff)
  then have v: "valid_date ty" by (simp add: projectable_def ty_def)
  note c = spec_congratulation_correct[OF v, folded cd_def]
  from year_mono[OF v c(1) c(5)] spec_this_year_year[of today "bdate b"] assms(3)
  have "1000 \<le> year cd" by (simp add: ty_def)
  from strftime_dmY_text[OF c(1) this] r(3) b
  have t: "congratulation_date e = text_dd_mm_yyyy cd"
    by (simp add: spec_entry_def cd_def ty_def)
  have n: "ename e = name r" using r(3) b by (simp add: spec_entry_def)
  have w5: "weekday ty = 5 \<Longrightarrow> weekday cd = 0"
    using weekday_after_saturday[of ty cd] c(3) by simp
  have w6: "weekday ty = 6 \<Longrightarrow> weekday cd = 0"
    using weekday_after_sunday[of ty cd] c(4) by simp
  from r(1,2) b n v c t w5 w6 show ?thesis
    by (intro exI[of _ r] exI[of _ b]) (simp add: Let_def ty_def[symmetric] cd_def[symmetric])
qed

lemma upcoming_john_ann:
  "get_upcoming_birthdays \<lparr>year = 2024, month = 10, day = 28\<rparr>
     [(ascii ''John'',
       \<lparr>name = ascii ''John'', phones = [],
        birthday = Some \<lparr>btext = ascii ''01.11.1990'',
                         bdate = \<lparr>year = 1990, month = 11, day = 1\<rparr>\<rparr>\<rparr>),
      (ascii ''Ann'',
       \<lparr>name = ascii ''Ann'', phones = [],
        birthday = Some \<lparr>btext = ascii ''03.11.1990'',
                         bdate = \<lparr>year = 1990, month = 11, day = 3\<rparr>\<rparr>\<rparr>)] =
   Inr [\<lparr>ename = ascii ''John'', congratulation_date = ascii ''01.11.2024''\<rparr>,
        \<lparr>ename = ascii ''Ann'', congratulation_date = ascii ''04.11.2024''\<rparr>]"
  by (simp add: loop_eval ord_eval from_eval fmt_eval)

theorem congratulation_date_reported_witness:
  "get_upcoming_birthdays \<lparr>year = 2024, month = 10, day = 28\<rparr>
     [(ascii ''John'',
       \<lparr>name = ascii ''John'', phones = [],
        birthday = Some \<lparr>btext = ascii ''01.11.1990'',
                         bdate = \<lparr>year = 1990, month = 11, day = 1\<rparr>\<rparr>\<rparr>),
      (ascii ''Ann'',
       \<lparr>name = ascii ''Ann'', phones = [],
        birthday = Some \<lparr>btext = ascii ''03.11.1990'',
                         bdate = \<lparr>year = 1990, month = 11, day = 3\<rparr>\<rparr>\<rparr>)] =
   Inr [\<lparr>ename = ascii ''John'', congratulation_date = ascii ''01.11.2024''\<rparr>,
        \<lparr>ename = ascii ''Ann'', congratulation_date = ascii ''04.11.2024''\<rparr>] \<and>
   1000 \<le> year \<lparr>year = 2024, month = 10, day = 28\<rparr> \<and>
   spec_this_year \<lparr>year = 2024, month = 10, day = 28\<rparr>
     \<lparr>year = 1990, month = 11, day = 3\<rparr> = \<lparr>year = 2024, month = 11, day = 3\<rparr> \<and>
   weekday \<lparr>year = 2024, month = 11, day = 3\<rparr> = 6 \<and>
   toordinal (spec_congratulation \<lparr>year = 2024, month = 11, day = 3\<rparr>) =
     toordinal \<lparr>year = 2024, month = 11, day = 3\<rparr> + 1 \<and>
   weekday (spec_congratulation \<lparr>year = 2024, month = 11, day = 3\<rparr>) = 0 \<and>
   text_dd_mm_yyyy (spec_congratulation \<lparr>year = 2024, month = 11, day = 3\<rparr>) =
     ascii ''04.11.2024''"
proof -
  let ?today = "\<lparr>year = 2024, month = 10, day = 28\<rparr>"
  let ?bA = "\<lparr>btext = ascii ''03.11.1990'', bdate = \<lparr>year = 1990, month = 11, day = 3\<rparr>\<rparr>"
  let ?rJ = "\<lparr>name = ascii ''John'', phones = [],
        birthday = Some \<lparr>btext = ascii ''01.11.1990'',
                         bdate = \<lparr>year = 1990, month = 11, day = 1\<rparr>\<rparr>\<rparr>"
  let ?rA = "\<lparr>name = ascii ''Ann'', phones = [], birthday = Some ?bA\<rparr>"
  let ?eJ = "\<lparr>ename = ascii ''John'', congratulation_date = ascii ''01.11.2024''\<rparr>"
  let ?eA = "\<lparr>ename = ascii ''Ann'', congratulation_date = ascii ''04.11.2024''\<rparr>"
  note h1 = upcoming_john_ann
  have h2: "?eA \<in> set [?eJ, ?eA]" by simp
  have h3: "1000 \<le> year ?today" by simp
  from congratulation_date_reported[OF h1 h2 h3] obtain r b where
    r: "r \<in> set (map snd [(ascii ''John'', ?rJ), (ascii ''Ann'', ?rA)])"
      "birthday r = Some b" "ename ?eA = name r"
    and f: "let ty = spec_this_year ?today (bdate b); cd = spec_congratulation ty
            in valid_date ty \<and> valid_date cd \<and>
               (weekday ty < 5 \<longrightarrow> cd = ty) \<and>
               (weekday ty = 5 \<longrightarrow> toordinal cd = toordinal ty + 2 \<and> weekday cd = 0) \<and>
               (weekday ty = 6 \<longrightarrow> toordinal cd = toordinal ty + 1 \<and> weekday cd = 0) \<and>
               congratulation_date ?eA = text_dd_mm_yyyy cd"
    by blast
  from r(1,3) have "r = ?rA" by (auto simp: ascii_def)
  with r(2) have b: "b = ?bA" by simp
  have ty: "spec_this_year ?today \<lparr>year = 1990, month = 11, day = 3\<rparr> =
              \<lparr>year = 2024, month = 11, day = 3\<rparr>"
    by (simp add: window_eval)
  note wd = weekday_3_nov_2024
  from f b ty wd have
    "toordinal (spec_congratulation \<lparr>year = 2024, month = 11, day = 3\<rparr>) =
       toordinal \<lparr>year = 2024, month = 11, day = 3\<rparr> + 1"
    "weekday (spec_congratulation \<lparr>year = 2024, month = 11, day = 3\<rparr>) = 0"
    "text_dd_mm_yyyy (spec_congratulation \<lparr>year = 2024, month = 11, day = 3\<rparr>) =
       ascii ''04.11.2024''"
    by (simp_all add: Let_def)
  with h1 h3 ty wd show ?thesis by simp
qed

end
